theory Spec2Isabelle
  imports Complex_Main "HOL-Library.Sublist"
begin

section \<open>Python strings\<close>

text \<open>
  A Python \<open>str\<close> is modelled as a \<open>string\<close>: a list of code points below 256, one
  \<open>char\<close> each.  The character tables below are those of Python 3 on that range
  (\<open>str.isspace\<close>, \<open>str.lower\<close>, and the classes \<open>\s\<close>, \<open>\w\<close>, \<open>\d\<close> of the
  \<open>re\<close> module for \<open>str\<close> patterns).
\<close>

definition code :: "char \<Rightarrow> nat" where
  "code c = of_char c"

definition is_space :: "char \<Rightarrow> bool" where
  "is_space c = (code c \<in> {9, 10, 11, 12, 13, 28, 29, 30, 31, 32, 133, 160})"

definition is_upper :: "char \<Rightarrow> bool" where
  "is_upper c = ((65 \<le> code c \<and> code c \<le> 90) \<or> (192 \<le> code c \<and> code c \<le> 222 \<and> code c \<noteq> 215))"

definition lower_chr :: "char \<Rightarrow> char" where
  "lower_chr c = (if is_upper c then char_of (code c + 32) else c)"

definition lower :: "string \<Rightarrow> string" where
  "lower s = map lower_chr s"

definition upper_ascii :: "char \<Rightarrow> char" where
  "upper_ascii c = (if 97 \<le> code c \<and> code c \<le> 122 then char_of (code c - 32) else c)"

text \<open>\<open>str.upper\<close>, needed only for the application name, on ASCII letters.\<close>

definition strip :: "string \<Rightarrow> string" where
  "strip s = rev (dropWhile is_space (rev (dropWhile is_space s)))"

definition rstrip :: "string \<Rightarrow> string \<Rightarrow> string" where
  "rstrip chars s = rev (dropWhile (\<lambda>c. c \<in> set chars) (rev s))"

text \<open>\<open>sub in text\<close> on strings.\<close>

fun py_in :: "string \<Rightarrow> string \<Rightarrow> bool" where
  "py_in sub [] = (sub = [])"
| "py_in sub (c # cs) = (prefix sub (c # cs) \<or> py_in sub cs)"

text \<open>Truth value of an \<open>Optional[str]\<close>: \<open>None\<close> and the empty string are false.\<close>

fun truthy_opt :: "string option \<Rightarrow> bool" where
  "truthy_opt None = False"
| "truthy_opt (Some s) = (s \<noteq> [])"

text \<open>What an f-string inserts for an \<open>Optional[str]\<close>.\<close>

fun fmt_opt :: "string option \<Rightarrow> string" where
  "fmt_opt None = ''None''"
| "fmt_opt (Some s) = s"

section \<open>Configuration\<close>

text \<open>
  The module-level settings.  Names that begin with an underscore in the source
  (\<open>_normalize_base_url\<close>, \<open>_eureka_register_instance\<close>, \<open>_eureka_heartbeat_loop\<close>)
  are written without it.
\<close>

record config =
  SERVICE_PORT :: int
  SERVICE_HOSTNAME :: string
  EUREKA_SERVER_URL :: "string option"
  EUREKA_APP_NAME :: string
  API_GATEWAY_URL :: "string option"
  APPOINTMENT_SERVICE_BASE_URL :: "string option"
  PATIENT_SERVICE_BASE_URL :: "string option"
  DOCTOR_SERVICE_BASE_URL :: "string option"

definition normalize_base_url :: "string option \<Rightarrow> string option" where
  "normalize_base_url url =
     (case url of
        None \<Rightarrow> None
      | Some u \<Rightarrow> if \<not> truthy_opt (Some u) then None else Some (rstrip ''/'' u))"

text \<open>
  \<open>os.getenv(key)\<close> and \<open>os.getenv(key, default)\<close> over the process environment, a
  map from names to values.  A variable that is set to the empty string is set.
\<close>

definition getenv :: "(string \<rightharpoonup> string) \<Rightarrow> string \<Rightarrow> string option" where
  "getenv env key = env key"

definition getenv_opt :: "(string \<rightharpoonup> string) \<Rightarrow> string \<Rightarrow> string option \<Rightarrow> string option" where
  "getenv_opt env key dflt = (case env key of Some v \<Rightarrow> Some v | None \<Rightarrow> dflt)"

definition getenv_str :: "(string \<rightharpoonup> string) \<Rightarrow> string \<Rightarrow> string \<Rightarrow> string" where
  "getenv_str env key dflt = (case env key of Some v \<Rightarrow> v | None \<Rightarrow> dflt)"

text \<open>
  The module-level assignments, in order.  \<open>port\<close> is the integer that
  \<open>int(os.getenv("SERVICE_PORT", "8085"))\<close> evaluated to.
\<close>

definition load_config :: "(string \<rightharpoonup> string) \<Rightarrow> int \<Rightarrow> config" where
  "load_config env port =
     \<lparr> SERVICE_PORT = port,
       SERVICE_HOSTNAME =
         getenv_str env ''SERVICE_HOSTNAME'' (getenv_str env ''HOSTNAME'' ''localhost''),
       EUREKA_SERVER_URL =
         getenv_opt env ''EUREKA_CLIENT_SERVICE_URL_DEFAULTZONE'' (getenv env ''EUREKA_SERVER_URL''),
       EUREKA_APP_NAME = getenv_str env ''EUREKA_APP_NAME'' ''chatbot-service'',
       API_GATEWAY_URL = normalize_base_url (getenv env ''API_GATEWAY_URL''),
       APPOINTMENT_SERVICE_BASE_URL = normalize_base_url (getenv env ''APPOINTMENT_SERVICE_BASE_URL''),
       PATIENT_SERVICE_BASE_URL = normalize_base_url (getenv env ''PATIENT_SERVICE_BASE_URL''),
       DOCTOR_SERVICE_BASE_URL = normalize_base_url (getenv env ''DOCTOR_SERVICE_BASE_URL'') \<rparr>"

definition resolve_appointment_base_url :: "config \<Rightarrow> string option" where
  "resolve_appointment_base_url cfg =
     (if truthy_opt (APPOINTMENT_SERVICE_BASE_URL cfg) then APPOINTMENT_SERVICE_BASE_URL cfg
      else if truthy_opt (API_GATEWAY_URL cfg) then Some (fmt_opt (API_GATEWAY_URL cfg) @ ''/appointments'')
      else Some ''http://appointment-service:8083'')"

section \<open>Regular expressions\<close>

text \<open>
  The fragment of Python's \<open>re\<close> that the patterns of this program use: literals,
  character classes, sequence, alternation, the greedy \<open>?\<close>, greedy repetition of a
  character class (\<open>*\<close>, \<open>+\<close>, \<open>{n}\<close>), the assertion \<open>\b\<close> and numbered groups.
  \<open>rmatch\<close> lists the states in which a match of the pattern can end, in the order in
  which the backtracking matcher tries them; the first is the match that \<open>re\<close> reports.
  A state is the end position and the spans of the groups captured so far.
\<close>

definition is_digit :: "char \<Rightarrow> bool" where
  "is_digit c = (48 \<le> code c \<and> code c \<le> 57)"

definition is_ascii_letter :: "char \<Rightarrow> bool" where
  "is_ascii_letter c = ((65 \<le> code c \<and> code c \<le> 90) \<or> (97 \<le> code c \<and> code c \<le> 122))"

definition is_word :: "char \<Rightarrow> bool" where
  "is_word c =
     (is_digit c \<or> is_ascii_letter c \<or> code c = 95
      \<or> code c \<in> {170, 178, 179, 181, 185, 186, 188, 189, 190}
      \<or> (192 \<le> code c \<and> code c \<noteq> 215 \<and> code c \<noteq> 247))"

definition not_newline :: "char \<Rightarrow> bool" where
  "not_newline c = (code c \<noteq> 10)"

datatype regex =
    Lit string
  | Cls "char \<Rightarrow> bool"
  | Seq regex regex
  | Alt regex regex
  | Opt regex
  | Star "char \<Rightarrow> bool"
  | Plus "char \<Rightarrow> bool"
  | Rep nat "char \<Rightarrow> bool"
  | WordB
  | Group nat regex

type_synonym mstate = "nat \<times> (nat \<times> nat \<times> nat) list"

text \<open>A literal character matches itself, and with \<open>re.IGNORECASE\<close> its other case.\<close>

definition chr_eq :: "bool \<Rightarrow> char \<Rightarrow> char \<Rightarrow> bool" where
  "chr_eq ic p c = (if ic then lower_chr p = lower_chr c else p = c)"

definition lit_at :: "bool \<Rightarrow> string \<Rightarrow> nat \<Rightarrow> string \<Rightarrow> bool" where
  "lit_at ic s i p = (i + length p \<le> length s \<and> list_all2 (chr_eq ic) p (take (length p) (drop i s)))"

text \<open>The number of consecutive characters from position \<open>i\<close> that are in a class.\<close>

definition run :: "(char \<Rightarrow> bool) \<Rightarrow> string \<Rightarrow> nat \<Rightarrow> nat" where
  "run P s i = length (takeWhile P (drop i s))"

definition word_at :: "string \<Rightarrow> nat \<Rightarrow> bool" where
  "word_at s i = (i < length s \<and> is_word (s ! i))"

definition at_boundary :: "string \<Rightarrow> nat \<Rightarrow> bool" where
  "at_boundary s i = ((0 < i \<and> word_at s (i - 1)) \<noteq> word_at s i)"

primrec rmatch :: "bool \<Rightarrow> string \<Rightarrow> regex \<Rightarrow> mstate \<Rightarrow> mstate list" where
  "rmatch ic s (Lit p) st = (if lit_at ic s (fst st) p then [(fst st + length p, snd st)] else [])"
| "rmatch ic s (Cls P) st =
     (if fst st < length s \<and> P (s ! fst st) then [(Suc (fst st), snd st)] else [])"
| "rmatch ic s (Seq a b) st = concat (map (rmatch ic s b) (rmatch ic s a st))"
| "rmatch ic s (Alt a b) st = rmatch ic s a st @ rmatch ic s b st"
| "rmatch ic s (Opt a) st = rmatch ic s a st @ [st]"
| "rmatch ic s (Star P) st =
     map (\<lambda>k. (fst st + k, snd st)) (rev [0..<Suc (run P s (fst st))])"
| "rmatch ic s (Plus P) st =
     map (\<lambda>k. (fst st + k, snd st)) (rev [1..<Suc (run P s (fst st))])"
| "rmatch ic s (Rep n P) st = (if n \<le> run P s (fst st) then [(fst st + n, snd st)] else [])"
| "rmatch ic s WordB st = (if at_boundary s (fst st) then [st] else [])"
| "rmatch ic s (Group g a) st =
     map (\<lambda>e. (fst e, (g, fst st, fst e) # snd e)) (rmatch ic s a st)"

fun seqs :: "regex list \<Rightarrow> regex" where
  "seqs [] = Lit []"
| "seqs [r] = r"
| "seqs (r # rs) = Seq r (seqs rs)"

fun alts :: "string list \<Rightarrow> regex" where
  "alts [] = Lit []"
| "alts [p] = Lit p"
| "alts (p # ps) = Alt (Lit p) (alts ps)"

text \<open>
  \<open>re.search\<close>: the first match of the leftmost start position that has one.  A match
  is its start together with its end state.
\<close>

type_synonym rematch = "nat \<times> mstate"

fun first_match :: "(nat \<Rightarrow> mstate list) \<Rightarrow> nat list \<Rightarrow> rematch option" where
  "first_match f [] = None"
| "first_match f (i # is) = (case f i of [] \<Rightarrow> first_match f is | e # _ \<Rightarrow> Some (i, e))"

definition re_search :: "bool \<Rightarrow> regex \<Rightarrow> string \<Rightarrow> rematch option" where
  "re_search ic r s = first_match (\<lambda>i. rmatch ic s r (i, [])) [0..<Suc (length s)]"

text \<open>\<open>m.group(g)\<close>: the text of the group's last capture, \<open>None\<close> if it took no part.\<close>

definition group :: "string \<Rightarrow> rematch \<Rightarrow> nat \<Rightarrow> string option" where
  "group s m g =
     (case map_of (snd (snd m)) g of
        None \<Rightarrow> None
      | Some (a, b) \<Rightarrow> Some (take (b - a) (drop a s)))"

section \<open>Intent classification\<close>

definition book_pattern :: regex where
  "book_pattern =
     seqs [WordB, Group 1 (alts [''book'', ''schedule'']), WordB, Star not_newline,
           WordB, Group 2 (alts [''appointment'', ''appt'']), WordB]"

definition fetch_pattern :: regex where
  "fetch_pattern =
     seqs [WordB, Group 1 (alts [''show'', ''list'', ''my'']), WordB, Star not_newline,
           WordB, Group 2 (alts [''appointments'', ''appts'']), WordB]"

definition detect_intent :: "string \<Rightarrow> string" where
  "detect_intent message =
     (let text = lower (strip message) in
      if list_ex (\<lambda>greet. py_in greet text) [''hi'', ''hello'', ''hey''] then ''greeting''
      else if re_search False book_pattern text \<noteq> None then ''book_appointment''
      else if re_search False fetch_pattern text \<noteq> None \<or> py_in ''show my appointments'' text
        then ''fetch_appointments''
      else ''unknown'')"

section \<open>Entity extraction\<close>

definition doctor_pattern :: regex where
  "doctor_pattern =
     seqs [Lit ''with'', Plus is_space, Lit ''dr'', Opt (Lit ''.''), Plus is_space,
           Group 1 (Plus is_ascii_letter)]"

definition date_pattern :: regex where
  "date_pattern =
     seqs [WordB,
           Group 1 (Alt (Lit ''today'') (Alt (Lit ''tomorrow'')
             (seqs [Rep 4 is_digit, Lit ''-'', Rep 2 is_digit, Lit ''-'', Rep 2 is_digit]))),
           WordB]"

definition extract_doctor :: "string \<Rightarrow> string option" where
  "extract_doctor message =
     (let doctor_match = re_search True doctor_pattern message in
      case doctor_match of Some m \<Rightarrow> group message m 1 | None \<Rightarrow> None)"

definition extract_date :: "string \<Rightarrow> string option" where
  "extract_date message =
     (let date_match = re_search True date_pattern message in
      case date_match of Some m \<Rightarrow> group message m 1 | None \<Rightarrow> None)"

section \<open>Python values\<close>

text \<open>
  The values that \<open>resp.json()\<close> produces, which are also the values that the request
  payloads hold and that the two API functions return.  A dict is the list of its
  items; \<open>dict.get\<close> is \<open>map_of\<close> on it.  A float is its real value (the non-finite
  floats and the sign of zero are left out).
\<close>

datatype pyval =
    PNone
  | PBool bool
  | PInt int
  | PFloat real
  | PStr string
  | PList "pyval list"
  | PDict "(string \<times> pyval) list"

fun truthy :: "pyval \<Rightarrow> bool" where
  "truthy PNone = False"
| "truthy (PBool b) = b"
| "truthy (PInt i) = (i \<noteq> 0)"
| "truthy (PFloat x) = (x \<noteq> 0)"
| "truthy (PStr s) = (s \<noteq> [])"
| "truthy (PList xs) = (xs \<noteq> [])"
| "truthy (PDict kv) = (kv \<noteq> [])"

text \<open>\<open>a or b\<close>, for a \<open>b\<close> whose evaluation cannot fail.\<close>

definition py_or :: "pyval \<Rightarrow> pyval \<Rightarrow> pyval" where
  "py_or a b = (if truthy a then a else b)"

definition dict_get :: "(string \<times> pyval) list \<Rightarrow> string \<Rightarrow> pyval" where
  "dict_get kv k = (case map_of kv k of Some v \<Rightarrow> v | None \<Rightarrow> PNone)"

fun type_name :: "pyval \<Rightarrow> string" where
  "type_name PNone = ''NoneType''"
| "type_name (PBool b) = ''bool''"
| "type_name (PInt i) = ''int''"
| "type_name (PFloat x) = ''float''"
| "type_name (PStr s) = ''str''"
| "type_name (PList xs) = ''list''"
| "type_name (PDict kv) = ''dict''"

text \<open>
  An exception is the string that \<open>str(exc)\<close> gives; a computation that may raise
  returns \<open>Inl\<close> of it.  \<open>v.get(k)\<close> exists on dicts only.
\<close>

definition attribute_error :: "pyval \<Rightarrow> string \<Rightarrow> string" where
  "attribute_error v a = [CHR 0x27] @ type_name v @ [CHR 0x27] @ '' object has no attribute ''
     @ [CHR 0x27] @ a @ [CHR 0x27]"

definition py_get :: "pyval \<Rightarrow> string \<Rightarrow> string + pyval" where
  "py_get v k = (case v of PDict kv \<Rightarrow> Inr (dict_get kv k) | _ \<Rightarrow> Inl (attribute_error v ''get''))"

text \<open>Decimal digits of an integer, as \<open>str\<close> and the f-string give them.\<close>

fun str_nat :: "nat \<Rightarrow> string" where
  "str_nat n = (if n < 10 then [char_of (48 + n)] else str_nat (n div 10) @ [char_of (48 + n mod 10)])"

declare str_nat.simps [simp del]

definition str_int :: "int \<Rightarrow> string" where
  "str_int i = (if i < 0 then CHR ''-'' # str_nat (nat (- i)) else str_nat (nat i))"

text \<open>
  \<open>str(v)\<close>, which is what \<open>f"{v}"\<close> inserts.  On floats, lists and dicts it is Python's
  \<open>repr\<close>, which is no part of this program: the parameter \<open>repr\<close> stands for it.
\<close>

fun py_str :: "(pyval \<Rightarrow> string) \<Rightarrow> pyval \<Rightarrow> string" where
  "py_str repr PNone = ''None''"
| "py_str repr (PBool b) = (if b then ''True'' else ''False'')"
| "py_str repr (PInt i) = str_int i"
| "py_str repr (PStr s) = s"
| "py_str repr v = repr v"

fun opt_val :: "string option \<Rightarrow> pyval" where
  "opt_val None = PNone"
| "opt_val (Some s) = PStr s"

fun py_join :: "string \<Rightarrow> string list \<Rightarrow> string" where
  "py_join sep [] = []"
| "py_join sep [x] = x"
| "py_join sep (x # xs) = x @ sep @ py_join sep xs"

section \<open>HTTP calls\<close>

datatype http_method = GET | POST | PUT

record http_request =
  req_method :: http_method
  req_url :: string
  req_json :: "pyval option"
  req_headers :: "(string \<times> string) list"
  req_timeout :: nat

text \<open>
  What a call of \<open>requests\<close> can do: raise (connection error, timeout, invalid URL, ...)
  or return a response with a status code and a body.  \<open>resp.json()\<close> on the body
  either raises or gives a value.
\<close>

datatype body = NotJson string | Json pyval

datatype http_outcome = Raised string | Response int body

type_synonym network = "http_request \<Rightarrow> http_outcome"

section \<open>Appointment API\<close>

text \<open>
  Each function returns its value together with the list of the requests it issued.
  The \<open>try\<close> block is a function of its own, with \<open>Inl\<close> for a raised exception.
\<close>

definition book_request :: "string option \<Rightarrow> string \<Rightarrow> http_request" where
  "book_request base_url message =
     (let doctor_name = extract_doctor message;
          date_str = extract_date message;
          payload = PDict [(''doctorName'', opt_val doctor_name), (''date'', opt_val date_str)]
      in \<lparr> req_method = POST, req_url = fmt_opt base_url @ ''/book'', req_json = Some payload,
           req_headers = [], req_timeout = 10 \<rparr>)"

definition book_try :: "string option \<Rightarrow> network \<Rightarrow> string \<Rightarrow> (string + pyval) \<times> http_request list" where
  "book_try base_url net message =
     (let req = book_request base_url message in
      (case net req of
         Raised exc \<Rightarrow> Inl exc
       | Response status_code b \<Rightarrow>
           if status_code \<ge> 400 then
             Inr (PStr (''Sorry, I couldn't book the appointment right now (status ''
                        @ str_int status_code @ '').''))
           else
             (case b of
                NotJson exc \<Rightarrow> Inl exc
              | Json data \<Rightarrow>
                  (case py_get data ''message'' of
                     Inl exc \<Rightarrow> Inl exc
                   | Inr v \<Rightarrow> Inr (py_or v (PStr ''Your appointment request has been submitted.'')))),
       [req]))"

definition book_appointment_via_api :: "config \<Rightarrow> network \<Rightarrow> string \<Rightarrow> pyval \<times> http_request list" where
  "book_appointment_via_api cfg net message =
     (let base_url = resolve_appointment_base_url cfg in
      case book_try base_url net message of
        (Inr v, sent) \<Rightarrow> (v, sent)
      | (Inl exc, sent) \<Rightarrow>
          (PStr (''Sorry, something went wrong while booking the appointment: '' @ exc), sent))"

definition appt_line :: "(pyval \<Rightarrow> string) \<Rightarrow> pyval \<Rightarrow> string + string" where
  "appt_line repr appt =
     (case appt of
        PDict kv \<Rightarrow>
          (let doctor = py_or (py_or (dict_get kv ''doctorName'') (dict_get kv ''doctor''))
                              (dict_get kv ''doctor_id'');
               date = py_or (dict_get kv ''date'') (dict_get kv ''appointmentDate'')
           in Inr (''- '' @ py_str repr date @ '' with Dr. '' @ py_str repr doctor))
      | _ \<Rightarrow> Inl (attribute_error appt ''get''))"

fun render_lines :: "(pyval \<Rightarrow> string) \<Rightarrow> pyval list \<Rightarrow> string list \<Rightarrow> string + string list" where
  "render_lines repr [] lines = Inr lines"
| "render_lines repr (appt # rest) lines =
     (case appt_line repr appt of
        Inl exc \<Rightarrow> Inl exc
      | Inr line \<Rightarrow> render_lines repr rest (lines @ [line]))"

definition fetch_request :: "string option \<Rightarrow> http_request" where
  "fetch_request base_url =
     \<lparr> req_method = GET, req_url = fmt_opt base_url, req_json = None, req_headers = [],
       req_timeout = 10 \<rparr>"

definition fetch_try :: "(pyval \<Rightarrow> string) \<Rightarrow> string option \<Rightarrow> network \<Rightarrow> (string + pyval) \<times> http_request list" where
  "fetch_try repr base_url net =
     (let req = fetch_request base_url in
      (case net req of
         Raised exc \<Rightarrow> Inl exc
       | Response status_code b \<Rightarrow>
           if status_code \<ge> 400 then
             Inr (PStr (''Couldn't fetch appointments (status '' @ str_int status_code @ '').''))
           else
             (case b of
                NotJson exc \<Rightarrow> Inl exc
              | Json data \<Rightarrow>
                  (case data of
                     PList entries \<Rightarrow>
                       if entries \<noteq> [] then
                         (case render_lines repr (take 5 entries) [] of
                            Inl exc \<Rightarrow> Inl exc
                          | Inr lines \<Rightarrow>
                              Inr (PStr (''Here are your upcoming appointments:'' @ [CHR 0x0A]
                                         @ py_join [CHR 0x0A] lines)))
                       else Inr (PStr ''You have no upcoming appointments.'')
                   | _ \<Rightarrow> Inr (PStr ''You have no upcoming appointments.''))),
       [req]))"

definition fetch_appointments_via_api :: "(pyval \<Rightarrow> string) \<Rightarrow> config \<Rightarrow> network \<Rightarrow> pyval \<times> http_request list" where
  "fetch_appointments_via_api repr cfg net =
     (let base_url = resolve_appointment_base_url cfg in
      case fetch_try repr base_url net of
        (Inr v, sent) \<Rightarrow> (v, sent)
      | (Inl exc, sent) \<Rightarrow>
          (PStr (''Sorry, something went wrong while fetching appointments: '' @ exc), sent))"

definition chat :: "(pyval \<Rightarrow> string) \<Rightarrow> config \<Rightarrow> network \<Rightarrow> string \<Rightarrow> pyval \<times> http_request list" where
  "chat repr cfg net message =
     (let intent = detect_intent message in
      if intent = ''greeting'' then (PStr ''Hello! How can I help you today?'', [])
      else if intent = ''book_appointment'' then book_appointment_via_api cfg net message
      else if intent = ''fetch_appointments'' then fetch_appointments_via_api repr cfg net
      else (PStr ''I'm not sure how to help with that yet.'', []))"

section \<open>Eureka registration and heartbeat\<close>

text \<open>
  \<open>str.upper\<close> takes some code points below 256 to code points above, so it is a
  parameter (\<open>upper\<close>) of the two functions that use it.
\<close>

definition register_instance_id :: "config \<Rightarrow> string" where
  "register_instance_id cfg =
     SERVICE_HOSTNAME cfg @ '':'' @ EUREKA_APP_NAME cfg @ '':'' @ str_int (SERVICE_PORT cfg)"

definition service_url :: "config \<Rightarrow> string \<Rightarrow> string" where
  "service_url cfg path =
     ''http://'' @ SERVICE_HOSTNAME cfg @ '':'' @ str_int (SERVICE_PORT cfg) @ path"

definition register_payload :: "(string \<Rightarrow> string) \<Rightarrow> (string \<rightharpoonup> string) \<Rightarrow> config \<Rightarrow> pyval" where
  "register_payload upper env cfg =
     (let instance_id = register_instance_id cfg;
          app_name_upper = upper (EUREKA_APP_NAME cfg)
      in PDict [(''instance'', PDict
           [(''instanceId'', PStr instance_id),
            (''hostName'', PStr (SERVICE_HOSTNAME cfg)),
            (''app'', PStr app_name_upper),
            (''ipAddr'', PStr (getenv_str env ''POD_IP'' ''127.0.0.1'')),
            (''status'', PStr ''UP''),
            (''port'', PDict [(''$'', PInt (SERVICE_PORT cfg)), (''@enabled'', PBool True)]),
            (''securePort'', PDict [(''$'', PInt 443), (''@enabled'', PBool False)]),
            (''healthCheckUrl'', PStr (service_url cfg ''/actuator/health'')),
            (''statusPageUrl'', PStr (service_url cfg ''/actuator/info'')),
            (''homePageUrl'', PStr (service_url cfg ''/'')),
            (''vipAddress'', PStr (EUREKA_APP_NAME cfg)),
            (''dataCenterInfo'', PDict
               [(''@class'', PStr ''com.netflix.appinfo.InstanceInfo$DefaultDataCenterInfo''),
                (''name'', PStr ''MyOwn'')])])])"

text \<open>Returns the requests issued; the outcome of the call is dropped either way.\<close>

definition eureka_register_instance :: "(string \<Rightarrow> string) \<Rightarrow> (string \<rightharpoonup> string) \<Rightarrow> config \<Rightarrow> network \<Rightarrow> http_request list" where
  "eureka_register_instance upper env cfg net =
     (case EUREKA_SERVER_URL cfg of
        None \<Rightarrow> []
      | Some server \<Rightarrow>
          if server = [] then []
          else
            (let url = rstrip ''/'' server @ ''/apps/'' @ upper (EUREKA_APP_NAME cfg);
                 req = \<lparr> req_method = POST, req_url = url,
                         req_json = Some (register_payload upper env cfg),
                         req_headers = [(''Content-Type'', ''application/json'')],
                         req_timeout = 5 \<rparr>
             in (case net req of Raised exc \<Rightarrow> [req] | Response status_code b \<Rightarrow> [req])))"

text \<open>
  A conditional expression evaluates only the operand it selects; reading a global
  name that was never assigned raises \<open>NameError\<close>.
\<close>

definition py_ifexp :: "bool \<Rightarrow> (unit \<Rightarrow> string + 'a) \<Rightarrow> (unit \<Rightarrow> string + 'a) \<Rightarrow> string + 'a" where
  "py_ifexp c a b = (if c then a () else b ())"

definition name_error :: "string \<Rightarrow> string + 'a" where
  "name_error n = Inl (''name '' @ [CHR 0x27] @ n @ [CHR 0x27] @ '' is not defined'')"

definition heartbeat_instance_id :: "config \<Rightarrow> string + string" where
  "heartbeat_instance_id cfg =
     (case py_ifexp False (\<lambda>_. name_error ''EUREKA_APPNAME'') (\<lambda>_. Inr (EUREKA_APP_NAME cfg)) of
        Inl exc \<Rightarrow> Inl exc
      | Inr name \<Rightarrow> Inr (SERVICE_HOSTNAME cfg @ '':'' @ name @ '':'' @ str_int (SERVICE_PORT cfg)))"

datatype event = Sent http_request | Sleep nat

record hb_state =
  hb_events :: "event list"
  hb_count :: nat

definition heartbeat_request :: "string \<Rightarrow> string \<Rightarrow> string \<Rightarrow> http_request" where
  "heartbeat_request base app_name_upper instance_id =
     \<lparr> req_method = PUT, req_url = base @ ''/apps/'' @ app_name_upper @ ''/'' @ instance_id,
       req_json = None, req_headers = [], req_timeout = 5 \<rparr>"

text \<open>
  One turn of the \<open>while True\<close> loop.  The outcome of the \<open>k\<close>-th call is \<open>net k\<close> of its
  request; the state records what the loop did and how many turns it has finished.
\<close>

definition heartbeat_body :: "(nat \<Rightarrow> network) \<Rightarrow> string \<Rightarrow> string \<Rightarrow> string \<Rightarrow> hb_state \<Rightarrow> hb_state" where
  "heartbeat_body net base app_name_upper instance_id st =
     (let req = heartbeat_request base app_name_upper instance_id;
          slept = st\<lparr> hb_events := hb_events st @ [Sent req, Sleep 30],
                     hb_count := Suc (hb_count st) \<rparr>
      in (case net (hb_count st) req of
            Raised exc \<Rightarrow> slept
          | Response status_code b \<Rightarrow> slept))"

text \<open>
  The loop has no exit, so a run of the function is followed for a given number of
  turns of its loop.  \<open>Returns st\<close>: the function has returned.  \<open>Raises exc\<close>: it has
  raised.  \<open>Running st\<close>: the turns are done and the function is at the head of the
  loop, about to start the next turn.
\<close>

datatype progress = Returns hb_state | Raises string | Running hb_state

fun heartbeat_while :: "nat \<Rightarrow> (nat \<Rightarrow> network) \<Rightarrow> string \<Rightarrow> string \<Rightarrow> string \<Rightarrow> hb_state \<Rightarrow> progress" where
  "heartbeat_while 0 net base app_name_upper instance_id st = Running st"
| "heartbeat_while (Suc turns) net base app_name_upper instance_id st =
     heartbeat_while turns net base app_name_upper instance_id
       (heartbeat_body net base app_name_upper instance_id st)"

text \<open>The three values that the function computes before it enters the loop.\<close>

definition heartbeat_vars :: "(string \<Rightarrow> string) \<Rightarrow> string \<Rightarrow> config \<Rightarrow> string + (string \<times> string \<times> string)" where
  "heartbeat_vars upper server cfg =
     (case heartbeat_instance_id cfg of
        Inl exc \<Rightarrow> Inl exc
      | Inr instance_id \<Rightarrow> Inr (instance_id, upper (EUREKA_APP_NAME cfg), rstrip ''/'' server))"

definition eureka_heartbeat_loop :: "nat \<Rightarrow> (string \<Rightarrow> string) \<Rightarrow> config \<Rightarrow> (nat \<Rightarrow> network) \<Rightarrow> hb_state \<Rightarrow> progress" where
  "eureka_heartbeat_loop turns upper cfg net st =
     (case EUREKA_SERVER_URL cfg of
        None \<Rightarrow> Returns st
      | Some server \<Rightarrow>
          if server = [] then Returns st
          else
            (case heartbeat_vars upper server cfg of
               Inl exc \<Rightarrow> Raises exc
             | Inr (instance_id, app_name_upper, base) \<Rightarrow>
                 heartbeat_while turns net base app_name_upper instance_id st))"

section \<open>Predicates used in the statements\<close>

text \<open>The four settings that hold a base URL, each with its environment variable.\<close>

definition url_settings :: "(string \<times> (config \<Rightarrow> string option)) list" where
  "url_settings =
     [(''API_GATEWAY_URL'', API_GATEWAY_URL),
      (''APPOINTMENT_SERVICE_BASE_URL'', APPOINTMENT_SERVICE_BASE_URL),
      (''PATIENT_SERVICE_BASE_URL'', PATIENT_SERVICE_BASE_URL),
      (''DOCTOR_SERVICE_BASE_URL'', DOCTOR_SERVICE_BASE_URL)]"

text \<open>
  A setting is configured when its variable is set to a value that has more in it
  than slashes.  (A value of slashes only is normalized to the empty string, which
  counts as false wherever the program tests a setting.)
\<close>

definition configured :: "string option \<Rightarrow> bool" where
  "configured v = (case v of None \<Rightarrow> False | Some u \<Rightarrow> rstrip ''/'' u \<noteq> [])"

text \<open>
A downstream that gives the same outcome to every request, and the configuration
of a process started with an empty environment: the inputs of the closed examples.
\<close>

definition stub :: "http_outcome \<Rightarrow> network" where
  "stub out = (\<lambda>req. out)"

definition default_config :: config where
  "default_config = load_config Map.empty 8085"

text \<open>
The reply to a successful booking as the specification words it: the \<open>message\<close>
field verbatim if the body has one, the generic confirmation otherwise.
\<close>

definition spec_book_reply :: "(string \<times> pyval) list \<Rightarrow> pyval" where
  "spec_book_reply kv =
     (case map_of kv ''message'' of
        Some v \<Rightarrow> v
      | None \<Rightarrow> PStr ''Your appointment request has been submitted.'')"

text \<open>
The value that a chain \<open>get(k1) or get(k2) or ...\<close> picks: that of the first key whose
value is true, and that of the last key when there is none.
\<close>

fun first_truthy :: "(string \<times> pyval) list \<Rightarrow> string list \<Rightarrow> pyval" where
  "first_truthy kv [] = PNone"
| "first_truthy kv [k] = dict_get kv k"
| "first_truthy kv (k # ks) = (if truthy (dict_get kv k) then dict_get kv k else first_truthy kv ks)"

definition entry_line :: "(pyval \<Rightarrow> string) \<Rightarrow> (string \<times> pyval) list \<Rightarrow> string" where
  "entry_line repr kv =
     ''- '' @ py_str repr (first_truthy kv [''date'', ''appointmentDate''])
     @ '' with Dr. '' @ py_str repr (first_truthy kv [''doctorName'', ''doctor'', ''doctor_id''])"

definition reply_header :: string where
  "reply_header = ''Here are your upcoming appointments:'' @ [CHR 0x0A]"

text \<open>
The listing as the specification words it: the first of the keys that is not
absent (a key with the value null is taken as absent).
\<close>

fun spec_first_non_absent :: "(string \<times> pyval) list \<Rightarrow> string list \<Rightarrow> pyval" where
  "spec_first_non_absent kv [] = PNone"
| "spec_first_non_absent kv (k # ks) =
     (case map_of kv k of
        None \<Rightarrow> spec_first_non_absent kv ks
      | Some v \<Rightarrow> if v = PNone then spec_first_non_absent kv ks else v)"

definition spec_line :: "(pyval \<Rightarrow> string) \<Rightarrow> (string \<times> pyval) list \<Rightarrow> string" where
  "spec_line repr kv =
     ''- '' @ py_str repr (spec_first_non_absent kv [''date'', ''appointmentDate''])
     @ '' with Dr. '' @ py_str repr (spec_first_non_absent kv [''doctorName'', ''doctor'', ''doctor_id''])"

definition spec_fetch_reply :: "(pyval \<Rightarrow> string) \<Rightarrow> (string \<times> pyval) list list \<Rightarrow> string" where
  "spec_fetch_reply repr kvs =
     (if kvs \<noteq> [] then reply_header @ py_join [CHR 0x0A] (map (spec_line repr) (take 5 kvs))
      else ''You have no upcoming appointments.'')"

text \<open>
Some \<open>repr\<close> for the closed examples, whose values it is never applied to.
\<close>

definition repr_stub :: "pyval \<Rightarrow> string" where
  "repr_stub v = ''<repr>''"

text \<open>
A dict has none of the keys.
\<close>

definition lacks :: "(string \<times> pyval) list \<Rightarrow> string list \<Rightarrow> bool" where
  "lacks kv keys = list_all (\<lambda>k. map_of kv k = None) keys"

text \<open>
Sample bodies for the closed examples.
\<close>

definition seven_entries :: "(string \<times> pyval) list list" where
  "seven_entries =
     [[(''doctorName'', PStr ''Lee''), (''date'', PStr ''2024-05-01'')],
      [(''doctor'', PStr ''Kim''), (''appointmentDate'', PStr ''2024-05-02'')],
      [(''doctor_id'', PInt 17), (''date'', PStr ''2024-05-03'')],
      [(''doctorName'', PNone), (''doctor'', PStr ''Roy''), (''date'', PStr ''2024-05-04'')],
      [(''note'', PStr ''walk-in'')],
      [(''doctorName'', PStr ''Ada''), (''date'', PStr ''2024-05-06'')],
      [(''doctorName'', PStr ''Bob''), (''date'', PStr ''2024-05-07'')]]"

definition empty_name_entry :: "(string \<times> pyval) list" where
  "empty_name_entry = [(''doctorName'', PStr []), (''doctor'', PStr ''Lee''), (''date'', PStr ''2024-05-01'')]"


text \<open>
Inputs of the closed examples: a configuration with a registry, a registry that
fails every call (a timeout on even turns, a 503 on odd ones), \<open>upper\<close> on ASCII
letters, and the state before the first turn.
\<close>

definition eureka_config :: config where
  "eureka_config = load_config [''EUREKA_SERVER_URL'' \<mapsto> ''http://eureka:8761/eureka/''] 8085"

definition failing_registry :: "nat \<Rightarrow> network" where
  "failing_registry k req = (if even k then Raised ''timed out'' else Response 503 (NotJson ''no body''))"

definition ascii_upper :: "string \<Rightarrow> string" where
  "ascii_upper s = map upper_ascii s"

definition start_state :: hb_state where
  "start_state = \<lparr> hb_events = [], hb_count = 0 \<rparr>"

text \<open>
The text of \<open>s\<close> from position \<open>i\<close> up to position \<open>j\<close>.
\<close>

definition slice :: "string \<Rightarrow> nat \<Rightarrow> nat \<Rightarrow> string" where
  "slice s i j = take (j - i) (drop i s)"

text \<open>
\<open>\b\<close> between two texts: exactly one of the two characters that meet is a word
character (the missing character at either end of the text counts as none).
\<close>

definition boundary :: "string \<Rightarrow> string \<Rightarrow> bool" where
  "boundary pre post = ((pre \<noteq> [] \<and> is_word (last pre)) \<noteq> (post \<noteq> [] \<and> is_word (hd post)))"

text \<open>
What it means for a text \<open>w\<close> to match a pattern when \<open>pre\<close> stands before it and
\<open>post\<close> after it, stated on the texts alone.  The matcher is proved to find exactly
these matches.
\<close>

primrec sem :: "bool \<Rightarrow> regex \<Rightarrow> string \<Rightarrow> string \<Rightarrow> string \<Rightarrow> bool" where
  "sem ic (Lit p) pre w post = list_all2 (chr_eq ic) p w"
| "sem ic (Cls P) pre w post = (\<exists>c. w = [c] \<and> P c)"
| "sem ic (Seq a b) pre w post =
     (\<exists>u v. w = u @ v \<and> sem ic a pre u (v @ post) \<and> sem ic b (pre @ u) v post)"
| "sem ic (Alt a b) pre w post = (sem ic a pre w post \<or> sem ic b pre w post)"
| "sem ic (Opt a) pre w post = (sem ic a pre w post \<or> w = [])"
| "sem ic (Star P) pre w post = list_all P w"
| "sem ic (Plus P) pre w post = (w \<noteq> [] \<and> list_all P w)"
| "sem ic (Rep n P) pre w post = (length w = n \<and> list_all P w)"
| "sem ic WordB pre w post = (w = [] \<and> boundary pre post)"
| "sem ic (Group g a) pre w post = sem ic a pre w post"

section \<open>Properties of the string operations\<close>

lemma code_char_of: "n < 256 \<Longrightarrow> code (char_of n) = n"
  by (simp add: code_def)

lemma lower_chr_idem: "lower_chr (lower_chr c) = lower_chr c"
  by (auto simp: lower_chr_def is_upper_def code_char_of)

lemma is_space_lower_chr: "is_space (lower_chr c) = is_space c"
  by (auto simp: lower_chr_def is_upper_def is_space_def code_char_of)

lemma lower_idem: "lower (lower s) = lower s"
  by (simp add: lower_def lower_chr_idem)

lemma dropWhile_space_lower: "dropWhile is_space (lower s) = lower (dropWhile is_space s)"
  by (induction s) (simp_all add: lower_def is_space_lower_chr)

lemma strip_lower: "strip (lower s) = lower (strip s)"
proof -
  have "rev (lower s) = lower (rev s)" for s by (simp add: lower_def rev_map)
  then show ?thesis
    unfolding strip_def by (metis dropWhile_space_lower)
qed

lemma detect_intent_text: "lower (strip s) = lower (strip t) \<Longrightarrow> detect_intent s = detect_intent t"
  by (simp add: detect_intent_def)

lemma strip_padded:
  assumes "list_all is_space l" "list_all is_space r"
  shows "strip (l @ s @ r) = strip s"
proof -
  have a: "dropWhile is_space (l @ x) = dropWhile is_space x" for x
    using assms(1) by (induction l) simp_all
  have b: "dropWhile is_space (rev r @ x) = dropWhile is_space x" for x
    using assms(2) by (intro dropWhile_append2) (auto simp: list_all_iff)
  show ?thesis
  proof (cases "list_all is_space s")
    case True
    then have 1: "dropWhile is_space (s @ r) = []" and 2: "dropWhile is_space s = []"
      using assms(2) by (auto simp: list_all_iff)
    show ?thesis unfolding strip_def a 1 2 by simp
  next
    case False
    then obtain x where "x \<in> set s" "\<not> is_space x" by (auto simp: list_all_iff)
    then have "dropWhile is_space (s @ r) = dropWhile is_space s @ r"
      by simp
    then show ?thesis by (simp add: strip_def a b)
  qed
qed

text \<open>
  Claim C6.  The intent of a message is the intent of its lower-cased form, and two
  messages with the same lower-cased form get the same intent; white space before
  and after the message does not change the intent; every message gets one of the
  four intents, and it gets \<open>unknown\<close> exactly when none of the three rules applies to
  its stripped, lower-cased text.
\<close>

theorem detect_intent_case_insensitive:
  "detect_intent s = detect_intent (lower s)
   \<and> (lower s = lower t \<longrightarrow> detect_intent s = detect_intent t)
   \<and> (list_all is_space l \<and> list_all is_space r \<longrightarrow> detect_intent (l @ s @ r) = detect_intent s)
   \<and> detect_intent s \<in> {''greeting'', ''book_appointment'', ''fetch_appointments'', ''unknown''}
   \<and> (detect_intent s = ''unknown'' \<longleftrightarrow>
        \<not> (py_in ''hi'' (lower (strip s)) \<or> py_in ''hello'' (lower (strip s)) \<or> py_in ''hey'' (lower (strip s)))
        \<and> re_search False book_pattern (lower (strip s)) = None
        \<and> re_search False fetch_pattern (lower (strip s)) = None
        \<and> \<not> py_in ''show my appointments'' (lower (strip s)))"
proof (intro conjI impI)
  show "detect_intent s = detect_intent (lower s)"
    by (rule detect_intent_text) (simp add: strip_lower lower_idem)
  show "detect_intent s = detect_intent t" if "lower s = lower t"
  proof (rule detect_intent_text)
    have "lower (strip s) = strip (lower s)" by (simp add: strip_lower)
    also have "\<dots> = strip (lower t)" using that by simp
    finally show "lower (strip s) = lower (strip t)" by (simp add: strip_lower)
  qed
  show "detect_intent (l @ s @ r) = detect_intent s"
    if "list_all is_space l \<and> list_all is_space r"
    using that by (intro detect_intent_text) (simp add: strip_padded)
  show "detect_intent s \<in> {''greeting'', ''book_appointment'', ''fetch_appointments'', ''unknown''}"
    by (simp add: detect_intent_def Let_def)
  show "detect_intent s = ''unknown'' \<longleftrightarrow>
        \<not> (py_in ''hi'' (lower (strip s)) \<or> py_in ''hello'' (lower (strip s)) \<or> py_in ''hey'' (lower (strip s)))
        \<and> re_search False book_pattern (lower (strip s)) = None
        \<and> re_search False fetch_pattern (lower (strip s)) = None
        \<and> \<not> py_in ''show my appointments'' (lower (strip s))"
    by (cases "re_search False book_pattern (lower (strip s))";
        cases "re_search False fetch_pattern (lower (strip s))";
        simp add: detect_intent_def Let_def)
qed

theorem detect_intent_case_insensitive_witness:
  "lower ''Schedule an APPT'' = lower ''schedule AN appt''
   \<and> list_all is_space ''  '' \<and> list_all is_space [CHR 0x0A]
   \<and> detect_intent ''Schedule an APPT'' = detect_intent ''schedule AN appt''
   \<and> detect_intent (''  '' @ ''Schedule an APPT'' @ [CHR 0x0A]) = detect_intent ''Schedule an APPT''
   \<and> detect_intent ''Schedule an APPT'' = ''book_appointment''"
proof -
  have h1: "lower ''Schedule an APPT'' = lower ''schedule AN appt''" by code_simp
  have h2: "list_all is_space ''  '' \<and> list_all is_space [CHR 0x0A]" by code_simp
  have h3: "detect_intent ''Schedule an APPT'' = ''book_appointment''" by code_simp
  show ?thesis
    using h1 h2 h3
      detect_intent_case_insensitive [of "''Schedule an APPT''" "''schedule AN appt''" "''  ''" "[CHR 0x0A]"]
    by blast
qed

section \<open>Configuration and the resolver\<close>

lemma rstrip_slash_decomp: "\<exists>k. s = rstrip ''/'' s @ replicate k CHR ''/''"
proof -
  let ?P = "\<lambda>c. c \<in> set ''/''"
  have "rev s = takeWhile ?P (rev s) @ dropWhile ?P (rev s)" by simp
  then have "s = rev (dropWhile ?P (rev s)) @ rev (takeWhile ?P (rev s))"
    by (metis rev_append rev_rev_ident)
  moreover have "rev (takeWhile ?P (rev s)) = replicate (length (takeWhile ?P (rev s))) CHR ''/''"
  proof -
    have "\<forall>c \<in> set (rev (takeWhile ?P (rev s))). c = CHR ''/''"
      by (auto dest: set_takeWhileD)
    then show ?thesis by (metis length_rev replicate_eqI)
  qed
  ultimately show ?thesis unfolding rstrip_def by metis
qed

lemma rstrip_slash_no_suffix: "\<not> suffix ''/'' (rstrip ''/'' s)"
proof
  let ?P = "\<lambda>c. c \<in> set ''/''"
  assume "suffix ''/'' (rstrip ''/'' s)"
  then obtain ys where "rstrip ''/'' s = ys @ ''/''" by (auto simp: suffix_def)
  then have eq: "dropWhile ?P (rev s) = CHR ''/'' # rev ys"
    unfolding rstrip_def by (metis rev_append rev_rev_ident rev_singleton_conv append_Cons append_Nil)
  then have "\<not> ?P (hd (dropWhile ?P (rev s)))" by (metis hd_dropWhile list.distinct(1))
  with eq show False by simp
qed

lemma normalize_base_url_cases:
  "normalize_base_url None = None"
  "normalize_base_url (Some []) = None"
  "u \<noteq> [] \<Longrightarrow> normalize_base_url (Some u) = Some (rstrip ''/'' u)"
  by (simp_all add: normalize_base_url_def)

text \<open>
  Claim C9.  Each of the four base URL settings of the start-up configuration is the
  value of its environment variable passed once through \<open>normalize_base_url\<close>: absent
  when the variable is unset or empty, and otherwise the value without its trailing
  slashes, which are all that is removed.
\<close>

theorem startup_urls_normalized:
  assumes "(key, setting) \<in> set url_settings"
  shows "setting (load_config env port) = normalize_base_url (env key)
    \<and> (env key = None \<or> env key = Some [] \<longrightarrow> setting (load_config env port) = None)
    \<and> (\<forall>u. env key = Some u \<and> u \<noteq> [] \<longrightarrow>
          (\<exists>k. setting (load_config env port) = Some (rstrip ''/'' u)
             \<and> u = rstrip ''/'' u @ replicate k CHR ''/''
             \<and> \<not> suffix ''/'' (rstrip ''/'' u)))"
proof -
  have 1: "setting (load_config env port) = normalize_base_url (env key)"
    using assms by (auto simp: url_settings_def load_config_def getenv_def)
  show ?thesis
    unfolding 1
    using rstrip_slash_decomp rstrip_slash_no_suffix
    by (auto simp: normalize_base_url_cases)
qed

theorem startup_urls_normalized_witness:
  "(''API_GATEWAY_URL'', API_GATEWAY_URL) \<in> set url_settings
   \<and> API_GATEWAY_URL (load_config [''API_GATEWAY_URL'' \<mapsto> ''http://gw:8080//''] 8085) = Some ''http://gw:8080''
   \<and> API_GATEWAY_URL (load_config [''API_GATEWAY_URL'' \<mapsto> ''''] 8085) = None
   \<and> API_GATEWAY_URL (load_config Map.empty 8085) = None"
proof -
  have h: "(''API_GATEWAY_URL'', API_GATEWAY_URL) \<in> set url_settings"
    by (simp add: url_settings_def)
  have r: "rstrip ''/'' ''http://gw:8080//'' = ''http://gw:8080''" by code_simp
  show ?thesis
    using h r
      startup_urls_normalized [OF h, of "[''API_GATEWAY_URL'' \<mapsto> ''http://gw:8080//'']" 8085]
      startup_urls_normalized [OF h, of "[''API_GATEWAY_URL'' \<mapsto> '''']" 8085]
      startup_urls_normalized [OF h, of Map.empty 8085]
    by auto
qed


lemma truthy_normalize: "truthy_opt (normalize_base_url v) = configured v"
  by (cases v) (auto simp: normalize_base_url_def configured_def rstrip_def)

lemma normalize_configured:
  "configured (Some u) \<Longrightarrow> normalize_base_url (Some u) = Some (rstrip ''/'' u)"
  by (auto simp: normalize_base_url_def configured_def rstrip_def)

lemma resolve_cases:
  "truthy_opt (APPOINTMENT_SERVICE_BASE_URL cfg) \<Longrightarrow>
     resolve_appointment_base_url cfg = APPOINTMENT_SERVICE_BASE_URL cfg"
  "\<not> truthy_opt (APPOINTMENT_SERVICE_BASE_URL cfg) \<Longrightarrow> truthy_opt (API_GATEWAY_URL cfg) \<Longrightarrow>
     resolve_appointment_base_url cfg = Some (fmt_opt (API_GATEWAY_URL cfg) @ ''/appointments'')"
  "\<not> truthy_opt (APPOINTMENT_SERVICE_BASE_URL cfg) \<Longrightarrow> \<not> truthy_opt (API_GATEWAY_URL cfg) \<Longrightarrow>
     resolve_appointment_base_url cfg = Some ''http://appointment-service:8083''"
  by (simp_all add: resolve_appointment_base_url_def)

lemma resolve_nonempty: "\<exists>u. resolve_appointment_base_url cfg = Some u \<and> u \<noteq> []"
  by (cases "APPOINTMENT_SERVICE_BASE_URL cfg") (auto simp: resolve_appointment_base_url_def)

text \<open>
  Claim C2.  On the start-up configuration the resolver follows a fixed precedence
  that covers every case: a configured direct URL is returned without its trailing
  slashes; otherwise a configured gateway URL is returned with \<open>/appointments\<close>
  appended; otherwise the fallback \<open>http://appointment-service:8083\<close> is returned.  The
  result is never absent and never empty.
\<close>

theorem resolve_appointment_base_url_precedence:
  fixes env :: "string \<rightharpoonup> string" and port :: int
  defines "cfg \<equiv> load_config env port"
    and "direct \<equiv> env ''APPOINTMENT_SERVICE_BASE_URL''"
    and "gateway \<equiv> env ''API_GATEWAY_URL''"
  shows "(\<forall>d. direct = Some d \<and> configured direct \<longrightarrow>
            resolve_appointment_base_url cfg = Some (rstrip ''/'' d) \<and> \<not> suffix ''/'' (rstrip ''/'' d))
       \<and> (\<forall>g. \<not> configured direct \<and> gateway = Some g \<and> configured gateway \<longrightarrow>
            resolve_appointment_base_url cfg = Some (rstrip ''/'' g @ ''/appointments''))
       \<and> (\<not> configured direct \<and> \<not> configured gateway \<longrightarrow>
            resolve_appointment_base_url cfg = Some ''http://appointment-service:8083'')
       \<and> (\<exists>u. resolve_appointment_base_url cfg = Some u \<and> u \<noteq> [])"
proof -
  have a: "APPOINTMENT_SERVICE_BASE_URL cfg = normalize_base_url direct"
    and g: "API_GATEWAY_URL cfg = normalize_base_url gateway"
    by (simp_all add: cfg_def direct_def gateway_def load_config_def getenv_def)
  have 1: "resolve_appointment_base_url cfg = Some (rstrip ''/'' d) \<and> \<not> suffix ''/'' (rstrip ''/'' d)"
    if "direct = Some d \<and> configured direct" for d
    using that resolve_cases(1) [of cfg] rstrip_slash_no_suffix [of d]
    by (auto simp: a truthy_normalize normalize_configured)
  have 2: "resolve_appointment_base_url cfg = Some (rstrip ''/'' g @ ''/appointments'')"
    if "\<not> configured direct \<and> gateway = Some g \<and> configured gateway" for g
    using that resolve_cases(2) [of cfg]
    by (auto simp: a g truthy_normalize normalize_configured)
  have 3: "resolve_appointment_base_url cfg = Some ''http://appointment-service:8083''"
    if "\<not> configured direct \<and> \<not> configured gateway"
    using that resolve_cases(3) [of cfg] by (auto simp: a g truthy_normalize)
  show ?thesis using 1 2 3 resolve_nonempty [of cfg] by blast
qed

theorem resolve_appointment_base_url_precedence_witness:
  "configured (Some ''http://appt:9000/'') \<and> configured (Some ''http://gw:8080'')
   \<and> \<not> configured None \<and> \<not> configured (Some ''/'')
   \<and> resolve_appointment_base_url
        (load_config [''APPOINTMENT_SERVICE_BASE_URL'' \<mapsto> ''http://appt:9000/'',
                      ''API_GATEWAY_URL'' \<mapsto> ''http://gw:8080''] 8085) = Some ''http://appt:9000''
   \<and> resolve_appointment_base_url (load_config [''API_GATEWAY_URL'' \<mapsto> ''http://gw:8080''] 8085)
        = Some ''http://gw:8080/appointments''
   \<and> resolve_appointment_base_url
        (load_config [''APPOINTMENT_SERVICE_BASE_URL'' \<mapsto> ''/''] 8085)
        = Some ''http://appointment-service:8083''
   \<and> resolve_appointment_base_url (load_config Map.empty 8085) = Some ''http://appointment-service:8083''"
proof -
  have c: "configured (Some ''http://appt:9000/'')" "configured (Some ''http://gw:8080'')"
    "\<not> configured None" "\<not> configured (Some ''/'')"
    by code_simp+
  have r: "rstrip ''/'' ''http://appt:9000/'' = ''http://appt:9000''"
    "rstrip ''/'' ''http://gw:8080'' = ''http://gw:8080''"
    by code_simp+
  show ?thesis
    using c r
      resolve_appointment_base_url_precedence
        [of "[''APPOINTMENT_SERVICE_BASE_URL'' \<mapsto> ''http://appt:9000/'', ''API_GATEWAY_URL'' \<mapsto> ''http://gw:8080'']" 8085]
      resolve_appointment_base_url_precedence [of "[''API_GATEWAY_URL'' \<mapsto> ''http://gw:8080'']" 8085]
      resolve_appointment_base_url_precedence [of "[''APPOINTMENT_SERVICE_BASE_URL'' \<mapsto> ''/'']" 8085]
      resolve_appointment_base_url_precedence [of Map.empty 8085]
    by auto
qed

section \<open>The appointment API\<close>

lemma book_api_unfold:
  "book_appointment_via_api cfg net message =
     (case net (book_request (resolve_appointment_base_url cfg) message) of
        Raised exc \<Rightarrow> PStr (''Sorry, something went wrong while booking the appointment: '' @ exc)
      | Response status_code b \<Rightarrow>
          if status_code \<ge> 400 then
            PStr (''Sorry, I couldn't book the appointment right now (status '' @ str_int status_code @ '').'')
          else
            (case b of
               NotJson exc \<Rightarrow> PStr (''Sorry, something went wrong while booking the appointment: '' @ exc)
             | Json data \<Rightarrow>
                 (case data of
                    PDict kv \<Rightarrow> py_or (dict_get kv ''message'') (PStr ''Your appointment request has been submitted.'')
                  | _ \<Rightarrow> PStr (''Sorry, something went wrong while booking the appointment: '' @ attribute_error data ''get''))),
      [book_request (resolve_appointment_base_url cfg) message])"
  by (simp add: book_appointment_via_api_def book_try_def Let_def py_get_def
      split: http_outcome.splits body.splits pyval.splits sum.splits)

text \<open>
Claim C4, amended.  On a response with a status below 400 whose JSON body is an
object, the reply is the \<open>message\<close> field itself when that field is present and true
(not null, false, zero or empty), and the generic confirmation when the field is
missing or false.  A 201 response with the body \<open>{"message": "Booked!"}\<close> gives
\<open>Booked!\<close>.
\<close>

theorem book_success_reply:
  assumes "net (book_request (resolve_appointment_base_url cfg) message) = Response status_code (Json (PDict kv))"
    and "status_code < 400"
  shows "fst (book_appointment_via_api cfg net message) =
           (case map_of kv ''message'' of
              Some v \<Rightarrow> if truthy v then v else PStr ''Your appointment request has been submitted.''
            | None \<Rightarrow> PStr ''Your appointment request has been submitted.'')"
  using assms by (simp add: book_api_unfold py_or_def dict_get_def split: option.splits)

theorem book_success_reply_witness:
  "stub (Response 201 (Json (PDict [(''message'', PStr ''Booked!'')])))
      (book_request (resolve_appointment_base_url default_config) ''book with dr. Lee on 2024-05-01'')
     = Response 201 (Json (PDict [(''message'', PStr ''Booked!'')]))
   \<and> (201 :: int) < 400
   \<and> fst (book_appointment_via_api default_config
        (stub (Response 201 (Json (PDict [(''message'', PStr ''Booked!'')]))))
        ''book with dr. Lee on 2024-05-01'') = PStr ''Booked!''"
proof -
  have h: "stub (Response 201 (Json (PDict [(''message'', PStr ''Booked!'')])))
      (book_request (resolve_appointment_base_url default_config) ''book with dr. Lee on 2024-05-01'')
     = Response 201 (Json (PDict [(''message'', PStr ''Booked!'')]))"
    by (simp add: stub_def)
  have s: "(201 :: int) < 400" by simp
  show ?thesis
    using h s
      book_success_reply [where net = "stub (Response 201 (Json (PDict [(''message'', PStr ''Booked!'')])))"
        and cfg = default_config and message = "''book with dr. Lee on 2024-05-01''"
        and status_code = 201 and kv = "[(''message'', PStr ''Booked!'')]"]
    by simp
qed

text \<open>
Claim C4 as stated fails on the body \<open>{"message": ""}\<close>: the body has a \<open>message\<close>
field, and the reply is the generic confirmation, not the field.
\<close>

theorem book_message_verbatim_counterexample:
  "map_of [(''message'', PStr [])] ''message'' = Some (PStr [])
   \<and> fst (book_appointment_via_api default_config
        (stub (Response 200 (Json (PDict [(''message'', PStr [])])))) ''book an appointment'')
       = PStr ''Your appointment request has been submitted.''
   \<and> fst (book_appointment_via_api default_config
        (stub (Response 200 (Json (PDict [(''message'', PStr [])])))) ''book an appointment'')
       \<noteq> spec_book_reply [(''message'', PStr [])]"
  by (simp add: book_api_unfold stub_def py_or_def dict_get_def spec_book_reply_def)

text \<open>
Claim C1 at the body \<open>{"message": 42}\<close> of a 200 response: the function returns the
integer 42, which is not a string.
\<close>

theorem book_returns_non_string:
  "fst (book_appointment_via_api default_config
        (stub (Response 200 (Json (PDict [(''message'', PInt 42)])))) ''book an appointment'') = PInt 42"
  by (simp add: book_api_unfold stub_def py_or_def dict_get_def)

lemma appt_line_dict: "appt_line repr (PDict kv) = Inr (entry_line repr kv)"
  by (simp add: appt_line_def entry_line_def py_or_def Let_def)

lemma render_lines_dicts:
  "render_lines repr (map PDict kvs) acc = Inr (acc @ map (entry_line repr) kvs)"
  by (induction kvs arbitrary: acc) (simp_all add: appt_line_dict)

lemma fetch_api_unfold:
  "fetch_appointments_via_api repr cfg net =
     (case net (fetch_request (resolve_appointment_base_url cfg)) of
        Raised exc \<Rightarrow> PStr (''Sorry, something went wrong while fetching appointments: '' @ exc)
      | Response status_code b \<Rightarrow>
          if status_code \<ge> 400 then
            PStr (''Couldn't fetch appointments (status '' @ str_int status_code @ '').'')
          else
            (case b of
               NotJson exc \<Rightarrow> PStr (''Sorry, something went wrong while fetching appointments: '' @ exc)
             | Json data \<Rightarrow>
                 (case data of
                    PList entries \<Rightarrow>
                      if entries \<noteq> [] then
                        (case render_lines repr (take 5 entries) [] of
                           Inl exc \<Rightarrow> PStr (''Sorry, something went wrong while fetching appointments: '' @ exc)
                         | Inr lines \<Rightarrow> PStr (reply_header @ py_join [CHR 0x0A] lines))
                      else PStr ''You have no upcoming appointments.''
                  | _ \<Rightarrow> PStr ''You have no upcoming appointments.'')),
      [fetch_request (resolve_appointment_base_url cfg)])"
  by (simp add: fetch_appointments_via_api_def fetch_try_def Let_def reply_header_def
      split: http_outcome.splits body.splits pyval.splits sum.splits)

lemma fetch_reply_dicts:
  assumes "net (fetch_request (resolve_appointment_base_url cfg)) = Response status_code (Json (PList entries))"
    and "status_code < 400" and "entries \<noteq> []" and "take 5 entries = map PDict kvs"
  shows "fst (fetch_appointments_via_api repr cfg net)
           = PStr (reply_header @ py_join [CHR 0x0A] (map (entry_line repr) kvs))"
  using assms by (simp add: fetch_api_unfold render_lines_dicts)

text \<open>
Claim C3, amended.  On a response with a status below 400: when the JSON body is a
non-empty list whose first five entries are objects, the reply is the header line
followed by one line per entry of the first five, \<open>- <date> with Dr. <doctor>\<close>,
joined by newlines, where \<open>doctor\<close> is the first true value among \<open>doctorName\<close>,
\<open>doctor\<close>, \<open>doctor_id\<close> and \<open>date\<close> the first true value among \<open>date\<close>,
\<open>appointmentDate\<close> (the last key's value, \<open>None\<close> if missing, when none is true);
when the body is an empty list or not a list, the reply is the fixed message.  A
list of seven entries gives the header and five lines.
\<close>

theorem fetch_success_reply:
  assumes "net (fetch_request (resolve_appointment_base_url cfg)) = Response status_code (Json data)"
    and "status_code < 400"
  shows "(\<forall>entries kvs. data = PList entries \<and> entries \<noteq> [] \<and> take 5 entries = map PDict kvs \<longrightarrow>
            fst (fetch_appointments_via_api repr cfg net)
              = PStr (reply_header @ py_join [CHR 0x0A] (map (entry_line repr) kvs))
            \<and> length (map (entry_line repr) kvs) = min 5 (length entries))
       \<and> (data = PList [] \<or> (\<forall>entries. data \<noteq> PList entries) \<longrightarrow>
            fst (fetch_appointments_via_api repr cfg net) = PStr ''You have no upcoming appointments.'')"
proof (intro conjI allI impI)
  fix entries kvs
  assume a: "data = PList entries \<and> entries \<noteq> [] \<and> take 5 entries = map PDict kvs"
  then show "fst (fetch_appointments_via_api repr cfg net)
      = PStr (reply_header @ py_join [CHR 0x0A] (map (entry_line repr) kvs))"
    using assms fetch_reply_dicts by blast
  have "length (take 5 entries) = length (map PDict kvs)" using a by simp
  then show "length (map (entry_line repr) kvs) = min 5 (length entries)" by simp
next
  assume "data = PList [] \<or> (\<forall>entries. data \<noteq> PList entries)"
  then show "fst (fetch_appointments_via_api repr cfg net) = PStr ''You have no upcoming appointments.''"
    using assms by (cases data) (auto simp: fetch_api_unfold)
qed

theorem fetch_success_reply_witness:
  "stub (Response 200 (Json (PList (map PDict seven_entries))))
       (fetch_request (resolve_appointment_base_url default_config))
     = Response 200 (Json (PList (map PDict seven_entries)))
   \<and> (200 :: int) < 400
   \<and> length (map PDict seven_entries) = 7
   \<and> fst (fetch_appointments_via_api repr_stub default_config
            (stub (Response 200 (Json (PList (map PDict seven_entries))))))
       = PStr (reply_header @ py_join [CHR 0x0A]
           [''- 2024-05-01 with Dr. Lee'', ''- 2024-05-02 with Dr. Kim'', ''- 2024-05-03 with Dr. 17'',
            ''- 2024-05-04 with Dr. Roy'', ''- None with Dr. None''])
   \<and> fst (fetch_appointments_via_api repr_stub default_config (stub (Response 200 (Json (PList [])))))
       = PStr ''You have no upcoming appointments.''"
proof -
  let ?net = "stub (Response 200 (Json (PList (map PDict seven_entries))))"
  have h: "?net (fetch_request (resolve_appointment_base_url default_config))
     = Response 200 (Json (PList (map PDict seven_entries)))"
    by (simp add: stub_def)
  have e: "stub (Response 200 (Json (PList []))) (fetch_request (resolve_appointment_base_url default_config))
     = Response 200 (Json (PList []))"
    by (simp add: stub_def)
  have s: "(200 :: int) < 400" by simp
  have t: "map PDict seven_entries \<noteq> [] \<and> take 5 (map PDict seven_entries) = map PDict (take 5 seven_entries)"
    by (simp add: seven_entries_def)
  have l: "map (entry_line repr_stub) (take 5 seven_entries) =
     [''- 2024-05-01 with Dr. Lee'', ''- 2024-05-02 with Dr. Kim'', ''- 2024-05-03 with Dr. 17'',
      ''- 2024-05-04 with Dr. Roy'', ''- None with Dr. None'']"
    by code_simp
  have n: "length (map PDict seven_entries) = 7" by (simp add: seven_entries_def)
  show ?thesis
    using h s t l n
      fetch_success_reply [where net = ?net and cfg = default_config and status_code = 200
        and data = "PList (map PDict seven_entries)" and repr = repr_stub]
      fetch_success_reply [where net = "stub (Response 200 (Json (PList [])))" and cfg = default_config
        and status_code = 200 and data = "PList []" and repr = repr_stub, OF e s]
    by (metis (no_types, lifting))
qed

text \<open>
Claim C3 as stated fails on an entry whose \<open>doctorName\<close> is the empty string and
whose \<open>doctor\<close> is \<open>Lee\<close>: the first key that is not absent is \<open>doctorName\<close>, and
the line names \<open>Lee\<close>.
\<close>

theorem fetch_first_non_absent_counterexample:
  "fst (fetch_appointments_via_api repr_stub default_config
          (stub (Response 200 (Json (PList [PDict empty_name_entry])))))
     = PStr (reply_header @ ''- 2024-05-01 with Dr. Lee'')
   \<and> spec_fetch_reply repr_stub [empty_name_entry] = reply_header @ ''- 2024-05-01 with Dr. ''
   \<and> fst (fetch_appointments_via_api repr_stub default_config
          (stub (Response 200 (Json (PList [PDict empty_name_entry])))))
     \<noteq> PStr (spec_fetch_reply repr_stub [empty_name_entry])"
proof -
  have 1: "fst (fetch_appointments_via_api repr_stub default_config
          (stub (Response 200 (Json (PList [PDict empty_name_entry])))))
     = PStr (reply_header @ ''- 2024-05-01 with Dr. Lee'')"
    by (simp add: fetch_api_unfold stub_def appt_line_dict entry_line_def empty_name_entry_def
        dict_get_def)
  have 2: "spec_fetch_reply repr_stub [empty_name_entry] = reply_header @ ''- 2024-05-01 with Dr. ''"
    by (simp add: spec_fetch_reply_def spec_line_def empty_name_entry_def)
  show ?thesis unfolding 1 2 by simp
qed

lemma first_truthy_lacks: "lacks kv keys \<Longrightarrow> first_truthy kv keys = PNone"
  by (induction kv keys rule: first_truthy.induct) (simp_all add: lacks_def dict_get_def)

text \<open>
Claim C10.  In the reply to a successful response with a non-empty list whose
first five entries are objects, every one of these entries has its line; the line
of an entry with none of the doctor keys ends in \<open>with Dr. None\<close>, the line of an
entry with none of the date keys begins with \<open>- None with Dr.\<close>, and the line of an
entry with neither is \<open>- None with Dr. None\<close>.
\<close>

theorem fetch_missing_keys_rendered:
  assumes "net (fetch_request (resolve_appointment_base_url cfg)) = Response status_code (Json (PList entries))"
    and "status_code < 400" and "entries \<noteq> []" and "take 5 entries = map PDict kvs"
  shows "\<exists>lines. fst (fetch_appointments_via_api repr cfg net) = PStr (reply_header @ py_join [CHR 0x0A] lines)
       \<and> length lines = min 5 (length entries)
       \<and> (\<forall>i < length lines.
            (lacks (kvs ! i) [''doctorName'', ''doctor'', ''doctor_id''] \<longrightarrow>
               lines ! i = ''- '' @ py_str repr (first_truthy (kvs ! i) [''date'', ''appointmentDate''])
                           @ '' with Dr. None'')
          \<and> (lacks (kvs ! i) [''date'', ''appointmentDate''] \<longrightarrow>
               lines ! i = ''- None with Dr. ''
                           @ py_str repr (first_truthy (kvs ! i) [''doctorName'', ''doctor'', ''doctor_id'']))
          \<and> (lacks (kvs ! i) [''doctorName'', ''doctor'', ''doctor_id'']
               \<and> lacks (kvs ! i) [''date'', ''appointmentDate''] \<longrightarrow>
               lines ! i = ''- None with Dr. None''))"
proof -
  let ?lines = "map (entry_line repr) kvs"
  have 1: "fst (fetch_appointments_via_api repr cfg net) = PStr (reply_header @ py_join [CHR 0x0A] ?lines)"
    using assms by (rule fetch_reply_dicts)
  have "length (take 5 entries) = length (map PDict kvs)" using assms(4) by simp
  then have 2: "length ?lines = min 5 (length entries)" by simp
  have 3: "?lines ! i = ''- '' @ py_str repr (first_truthy (kvs ! i) [''date'', ''appointmentDate''])
       @ '' with Dr. '' @ py_str repr (first_truthy (kvs ! i) [''doctorName'', ''doctor'', ''doctor_id''])"
    if "i < length ?lines" for i
    using that by (simp add: entry_line_def)
  show ?thesis
    apply (rule exI [of _ ?lines])
    using 1 2 3 first_truthy_lacks by (auto simp del: first_truthy.simps)
qed

theorem fetch_missing_keys_rendered_witness:
  "stub (Response 200 (Json (PList (map PDict seven_entries))))
       (fetch_request (resolve_appointment_base_url default_config))
     = Response 200 (Json (PList (map PDict seven_entries)))
   \<and> (200 :: int) < 400
   \<and> map PDict seven_entries \<noteq> []
   \<and> take 5 (map PDict seven_entries) = map PDict (take 5 seven_entries)
   \<and> lacks (take 5 seven_entries ! 4) [''doctorName'', ''doctor'', ''doctor_id'']
   \<and> lacks (take 5 seven_entries ! 4) [''date'', ''appointmentDate'']
   \<and> (\<exists>lines. fst (fetch_appointments_via_api repr_stub default_config
                    (stub (Response 200 (Json (PList (map PDict seven_entries))))))
                 = PStr (reply_header @ py_join [CHR 0x0A] lines)
          \<and> length lines = 5 \<and> lines ! 4 = ''- None with Dr. None'')"
proof -
  let ?net = "stub (Response 200 (Json (PList (map PDict seven_entries))))"
  have h: "?net (fetch_request (resolve_appointment_base_url default_config))
     = Response 200 (Json (PList (map PDict seven_entries)))"
    by (simp add: stub_def)
  have s: "(200 :: int) < 400" by simp
  have n: "map PDict seven_entries \<noteq> []" by (simp add: seven_entries_def)
  have t: "take 5 (map PDict seven_entries) = map PDict (take 5 seven_entries)"
    by (simp add: take_map)
  have l: "lacks (take 5 seven_entries ! 4) [''doctorName'', ''doctor'', ''doctor_id'']"
    "lacks (take 5 seven_entries ! 4) [''date'', ''appointmentDate'']"
    by (simp_all add: seven_entries_def lacks_def)
  have m: "min 5 (length (map PDict seven_entries)) = 5" by (simp add: seven_entries_def)
  obtain lines where
    1: "fst (fetch_appointments_via_api repr_stub default_config ?net) = PStr (reply_header @ py_join [CHR 0x0A] lines)"
    and 2: "length lines = 5"
    and 3: "\<forall>i < length lines.
             (lacks (take 5 seven_entries ! i) [''doctorName'', ''doctor'', ''doctor_id'']
               \<and> lacks (take 5 seven_entries ! i) [''date'', ''appointmentDate''] \<longrightarrow>
               lines ! i = ''- None with Dr. None'')"
    using fetch_missing_keys_rendered [where net = ?net and cfg = default_config
        and status_code = 200 and entries = "map PDict seven_entries"
        and kvs = "take 5 seven_entries" and repr = repr_stub, OF h s n t]
    unfolding m by blast
  have "lines ! 4 = ''- None with Dr. None''" using 2 3 l by simp
  then show ?thesis using h s n t l 1 2 by blast
qed

section \<open>Registration and heartbeat\<close>

lemma heartbeat_body_eq:
  "heartbeat_body net base up iid st =
     st\<lparr> hb_events := hb_events st @ [Sent (heartbeat_request base up iid), Sleep 30],
         hb_count := Suc (hb_count st) \<rparr>"
  by (simp add: heartbeat_body_def Let_def split: http_outcome.splits)

lemma heartbeat_while_turns:
  "heartbeat_while n net base up iid st =
     Running (st\<lparr> hb_events := hb_events st
                  @ concat (replicate n [Sent (heartbeat_request base up iid), Sleep 30]),
                hb_count := hb_count st + n \<rparr>)"
proof (induction n arbitrary: st)
  case 0
  show ?case by simp
next
  case (Suc n)
  have "heartbeat_while (Suc n) net base up iid st
      = heartbeat_while n net base up iid (heartbeat_body net base up iid st)"
    by simp
  also have "\<dots> = Running (heartbeat_body net base up iid st
      \<lparr> hb_events := hb_events (heartbeat_body net base up iid st)
           @ concat (replicate n [Sent (heartbeat_request base up iid), Sleep 30]),
         hb_count := hb_count (heartbeat_body net base up iid st) + n \<rparr>)"
    by (rule Suc.IH)
  also have "\<dots> = Running (st\<lparr> hb_events := hb_events st
        @ concat (replicate (Suc n) [Sent (heartbeat_request base up iid), Sleep 30]),
      hb_count := hb_count st + Suc n \<rparr>)"
    by (simp add: heartbeat_body_eq)
  finally show ?case .
qed

lemma heartbeat_instance_id_eq: "heartbeat_instance_id cfg = Inr (register_instance_id cfg)"
  by (simp add: heartbeat_instance_id_def py_ifexp_def register_instance_id_def)


lemma heartbeat_loop_configured:
  assumes "EUREKA_SERVER_URL cfg = Some server" and "server \<noteq> []"
  shows "eureka_heartbeat_loop n upper cfg net st =
           Running (st\<lparr> hb_events := hb_events st @ concat (replicate n
                        [Sent (heartbeat_request (rstrip ''/'' server) (upper (EUREKA_APP_NAME cfg))
                                 (register_instance_id cfg)),
                         Sleep 30]),
                      hb_count := hb_count st + n \<rparr>)"
  using assms
  by (simp add: eureka_heartbeat_loop_def heartbeat_vars_def heartbeat_instance_id_eq
      heartbeat_while_turns)

lemma eureka_config_values:
  "EUREKA_SERVER_URL eureka_config = Some ''http://eureka:8761/eureka/''"
  "rstrip ''/'' ''http://eureka:8761/eureka/'' = ''http://eureka:8761/eureka''"
  "ascii_upper (EUREKA_APP_NAME eureka_config) = ''CHATBOT-SERVICE''"
  "register_instance_id eureka_config = ''localhost:chatbot-service:8085''"
  by (simp_all add: eureka_config_def load_config_def getenv_opt_def getenv_def getenv_str_def
      rstrip_def ascii_upper_def upper_ascii_def code_def register_instance_id_def
      str_int_def str_nat.simps char_of_eq_iff)

text \<open>
Claim C7.  With a registry URL configured, the heartbeat function, followed for any
number of turns of its loop, is still running after them: it has neither returned
nor raised, whatever the outcomes of its calls, and in these turns it has done
exactly that many times the same two things, one after the other: one renewal
\<open>PUT\<close> (timeout 5) and one sleep of 30 seconds.  Nothing in this depends on the
outcomes of the calls, so a failed renewal changes no later turn.
\<close>

theorem heartbeat_never_stops:
  assumes "EUREKA_SERVER_URL cfg = Some server" and "server \<noteq> []"
  shows "eureka_heartbeat_loop turns upper cfg net st =
           Running (st\<lparr> hb_events := hb_events st @ concat (replicate turns
                        [Sent (heartbeat_request (rstrip ''/'' server) (upper (EUREKA_APP_NAME cfg))
                                 (register_instance_id cfg)),
                         Sleep 30]),
                      hb_count := hb_count st + turns \<rparr>)
       \<and> (\<forall>r. eureka_heartbeat_loop turns upper cfg net st \<noteq> Returns r)
       \<and> (\<forall>exc. eureka_heartbeat_loop turns upper cfg net st \<noteq> Raises exc)
       \<and> eureka_heartbeat_loop turns upper cfg net' st = eureka_heartbeat_loop turns upper cfg net st"
  using heartbeat_loop_configured [OF assms] by simp

theorem heartbeat_never_stops_witness:
  "EUREKA_SERVER_URL eureka_config = Some ''http://eureka:8761/eureka/''
   \<and> ''http://eureka:8761/eureka/'' \<noteq> []
   \<and> failing_registry 0 (heartbeat_request ''http://eureka:8761/eureka'' ''CHATBOT-SERVICE''
        ''localhost:chatbot-service:8085'') = Raised ''timed out''
   \<and> failing_registry 1 (heartbeat_request ''http://eureka:8761/eureka'' ''CHATBOT-SERVICE''
        ''localhost:chatbot-service:8085'') = Response 503 (NotJson ''no body'')
   \<and> eureka_heartbeat_loop 3 ascii_upper eureka_config failing_registry start_state =
       Running \<lparr> hb_events =
                [Sent (heartbeat_request ''http://eureka:8761/eureka'' ''CHATBOT-SERVICE''
                         ''localhost:chatbot-service:8085''), Sleep 30,
                 Sent (heartbeat_request ''http://eureka:8761/eureka'' ''CHATBOT-SERVICE''
                         ''localhost:chatbot-service:8085''), Sleep 30,
                 Sent (heartbeat_request ''http://eureka:8761/eureka'' ''CHATBOT-SERVICE''
                         ''localhost:chatbot-service:8085''), Sleep 30],
              hb_count = 3 \<rparr>"
proof -
  have u: "EUREKA_SERVER_URL eureka_config = Some ''http://eureka:8761/eureka/''"
    by (simp add: eureka_config_values)
  have n: "''http://eureka:8761/eureka/'' \<noteq> []" by simp
  have f: "failing_registry 0 r = Raised ''timed out''"
    "failing_registry 1 r = Response 503 (NotJson ''no body'')" for r
    by (simp_all add: failing_registry_def)
  have c: "concat (replicate 3 [x, y]) = [x, y, x, y, x, y]" for x y :: event
    by (simp add: numeral_3_eq_3)
  have t: "eureka_heartbeat_loop 3 ascii_upper eureka_config failing_registry start_state =
       Running (start_state\<lparr> hb_events := hb_events start_state @ concat (replicate 3
                [Sent (heartbeat_request (rstrip ''/'' ''http://eureka:8761/eureka/'')
                   (ascii_upper (EUREKA_APP_NAME eureka_config)) (register_instance_id eureka_config)),
                 Sleep 30]),
              hb_count := hb_count start_state + 3 \<rparr>)"
    using heartbeat_never_stops [OF u n, of 3 ascii_upper failing_registry start_state] by blast
  have t': "eureka_heartbeat_loop 3 ascii_upper eureka_config failing_registry start_state =
       Running \<lparr> hb_events =
                [Sent (heartbeat_request ''http://eureka:8761/eureka'' ''CHATBOT-SERVICE''
                         ''localhost:chatbot-service:8085''), Sleep 30,
                 Sent (heartbeat_request ''http://eureka:8761/eureka'' ''CHATBOT-SERVICE''
                         ''localhost:chatbot-service:8085''), Sleep 30,
                 Sent (heartbeat_request ''http://eureka:8761/eureka'' ''CHATBOT-SERVICE''
                         ''localhost:chatbot-service:8085''), Sleep 30],
              hb_count = 3 \<rparr>"
    unfolding t eureka_config_values c by (simp add: start_state_def)
  show ?thesis using u n f t' by blast
qed




section \<open>Entity extraction and the booking request\<close>

lemma first_match_split:
  "first_match f xs = Some (i, e) \<Longrightarrow>
     \<exists>ys zs. xs = ys @ i # zs \<and> (\<forall>j \<in> set ys. f j = []) \<and> f i \<noteq> [] \<and> e = hd (f i)"
proof (induction xs)
  case Nil
  then show ?case by simp
next
  case (Cons x xs)
  show ?case
  proof (cases "f x")
    case Nil
    with Cons.prems have "first_match f xs = Some (i, e)" by simp
    from Cons.IH [OF this] obtain ys zs where
      "xs = ys @ i # zs" "\<forall>j \<in> set ys. f j = []" "f i \<noteq> []" "e = hd (f i)" by blast
    with Nil have "x # xs = (x # ys) @ i # zs \<and> (\<forall>j \<in> set (x # ys). f j = []) \<and> f i \<noteq> [] \<and> e = hd (f i)"
      by simp
    then show ?thesis by blast
  next
    case (Cons a as)
    with Cons.prems have "x = i" "e = a" by simp_all
    with Cons have "x # xs = [] @ i # xs \<and> (\<forall>j \<in> set []. f j = []) \<and> f i \<noteq> [] \<and> e = hd (f i)"
      by simp
    then show ?thesis by blast
  qed
qed

lemma first_match_None: "first_match f xs = None \<longleftrightarrow> (\<forall>j \<in> set xs. f j = [])"
  by (induction xs) (auto split: list.splits)

lemma re_search_Some:
  assumes "re_search ic r s = Some (i, e)"
  shows "i \<le> length s \<and> rmatch ic s r (i, []) \<noteq> [] \<and> e = hd (rmatch ic s r (i, []))
       \<and> (\<forall>j < i. rmatch ic s r (j, []) = [])"
proof -
  from first_match_split [OF assms [unfolded re_search_def]] obtain ys zs where
    x: "[0..<Suc (length s)] = ys @ i # zs" and n: "\<forall>j \<in> set ys. rmatch ic s r (j, []) = []"
    and m: "rmatch ic s r (i, []) \<noteq> []" "e = hd (rmatch ic s r (i, []))" by blast
  have "i \<in> set [0..<Suc (length s)]" unfolding x by simp
  then have 1: "i \<le> length s" by auto
  have "length ys = i"
  proof -
    have "[0..<Suc (length s)] ! length ys = i" unfolding x by simp
    moreover have "length ys < length [0..<Suc (length s)]" unfolding x by simp
    ultimately show ?thesis by (metis add_0 length_upt nth_upt diff_zero)
  qed
  then have "ys = [0..<i]"
    using x by (metis append_eq_conv_conj take_upt 1 Suc_leI le_imp_less_Suc add_0 less_or_eq_imp_le)
  with n have "\<forall>j < i. rmatch ic s r (j, []) = []" by simp
  with 1 m show ?thesis by blast
qed

lemma re_search_None:
  "re_search ic r s = None \<longleftrightarrow> (\<forall>j \<le> length s. rmatch ic s r (j, []) = [])"
  by (auto simp: re_search_def first_match_None less_Suc_eq_le)

lemma set_rmatch_Plus:
  "set (rmatch ic s (Plus P) st) = (\<lambda>k. (fst st + k, snd st)) ` {1..run P s (fst st)}"
  by auto

lemma set_rmatch_Star:
  "set (rmatch ic s (Star P) st) = (\<lambda>k. (fst st + k, snd st)) ` {0..run P s (fst st)}"
  by auto

lemma set_rmatch_Seq:
  "set (rmatch ic s (Seq a b) st) = (\<Union>m \<in> set (rmatch ic s a st). set (rmatch ic s b m))"
  by simp

lemma set_rmatch_Group:
  "set (rmatch ic s (Group g a) st) = (\<lambda>e. (fst e, (g, fst st, fst e) # snd e)) ` set (rmatch ic s a st)"
  by simp





lemma rmatch_bounds:
  "x \<in> set (rmatch ic s r st) \<Longrightarrow> fst st \<le> length s \<Longrightarrow> fst st \<le> fst x \<and> fst x \<le> length s"
proof (induction r arbitrary: x st)
  case (Lit p)
  then show ?case by (auto simp: lit_at_def split: if_splits)
next
  case (Cls P)
  then show ?case by (auto split: if_splits)
next
  case (Seq a b)
  from Seq.prems(1) obtain m where m: "m \<in> set (rmatch ic s a st)" "x \<in> set (rmatch ic s b m)"
    by auto
  from Seq.IH(1) [OF m(1) Seq.prems(2)] have 1: "fst st \<le> fst m \<and> fst m \<le> length s" .
  from Seq.IH(2) [OF m(2)] 1 show ?case by auto
next
  case (Alt a b)
  from Alt.prems(1) consider "x \<in> set (rmatch ic s a st)" | "x \<in> set (rmatch ic s b st)"
    by auto
  then show ?case using Alt.IH Alt.prems(2) by cases blast+
next
  case (Opt a)
  from Opt.prems(1) consider "x \<in> set (rmatch ic s a st)" | "x = st" by auto
  then show ?case using Opt.IH Opt.prems(2) by cases (blast, simp)
next
  case (Star P)
  have "run P s (fst st) \<le> length (drop (fst st) s)"
    unfolding run_def by (rule length_takeWhile_le)
  with Star show ?case by auto
next
  case (Plus P)
  have "run P s (fst st) \<le> length (drop (fst st) s)"
    unfolding run_def by (rule length_takeWhile_le)
  with Plus show ?case by auto
next
  case (Rep n P)
  have "run P s (fst st) \<le> length (drop (fst st) s)"
    unfolding run_def by (rule length_takeWhile_le)
  with Rep show ?case by (auto split: if_splits)
next
  case WordB
  then show ?case by (auto split: if_splits)
next
  case (Group g a)
  from Group.prems(1) obtain e where "e \<in> set (rmatch ic s a st)" "fst x = fst e" by auto
  then show ?case using Group.IH Group.prems(2) by metis
qed





section \<open>The matcher finds the matches of a pattern\<close>

lemma slice_same: "slice s i i = []"
  by (simp add: slice_def)

lemma length_slice: "j \<le> length s \<Longrightarrow> length (slice s i j) = j - i"
  by (simp add: slice_def)

lemma slice_append:
  assumes "i \<le> k" and "k \<le> j"
  shows "slice s i j = slice s i k @ slice s k j"
proof -
  have "j - i = (k - i) + (j - k)" using assms by arith
  then have "take (j - i) (drop i s) = take (k - i) (drop i s) @ take (j - k) (drop (k - i) (drop i s))"
    by (simp only: take_add)
  then show ?thesis using assms by (simp add: slice_def)
qed

lemma take_slice: "i \<le> k \<Longrightarrow> take i s @ slice s i k = take k s"
proof -
  assume "i \<le> k"
  then have "take k s = take (i + (k - i)) s" by simp
  also have "\<dots> = take i s @ take (k - i) (drop i s)" by (rule take_add)
  finally show ?thesis by (simp add: slice_def)
qed

lemma slice_drop: "i \<le> j \<Longrightarrow> slice s i j @ drop j s = drop i s"
proof -
  assume "i \<le> j"
  then have "drop j s = drop (j - i) (drop i s)" by simp
  then show ?thesis by (simp add: slice_def del: drop_drop)
qed

lemma at_boundary_eq:
  assumes "i \<le> length s"
  shows "at_boundary s i = boundary (take i s) (drop i s)"
proof -
  have 1: "(0 < i \<and> word_at s (i - 1)) = (take i s \<noteq> [] \<and> is_word (last (take i s)))"
  proof (cases "i = 0")
    case True
    then show ?thesis by simp
  next
    case False
    then have "take i s \<noteq> []" using assms by auto
    moreover have "last (take i s) = s ! (i - 1)"
    proof -
      have "length (take i s) = i" using assms by simp
      moreover have "take i s \<noteq> []" using False assms by auto
      ultimately have "last (take i s) = take i s ! (i - 1)" by (simp add: last_conv_nth)
      also have "\<dots> = s ! (i - 1)" using False by (intro nth_take) arith
      finally show ?thesis .
    qed
    moreover have "i - 1 < length s" using False assms by arith
    ultimately show ?thesis using False by (simp add: word_at_def)
  qed
  have 2: "word_at s i = (drop i s \<noteq> [] \<and> is_word (hd (drop i s)))"
    using assms by (cases "i < length s") (simp_all add: word_at_def hd_drop_conv_nth)
  show ?thesis unfolding at_boundary_def boundary_def 1 2 ..
qed

lemma run_le: "i + run P s i \<le> length s \<or> length s < i"
proof -
  have "run P s i \<le> length (drop i s)" unfolding run_def by (rule length_takeWhile_le)
  then show ?thesis by auto
qed

lemma slice_run:
  assumes "k \<le> run P s i"
  shows "list_all P (slice s i (i + k))"
proof -
  have k: "k \<le> length (takeWhile P (drop i s))" using assms by (simp add: run_def)
  have "take k (drop i s) = take k (takeWhile P (drop i s) @ dropWhile P (drop i s))" by simp
  also have "\<dots> = take k (takeWhile P (drop i s))"
    using k by (simp del: takeWhile_dropWhile_id)
  finally have "set (take k (drop i s)) \<subseteq> set (takeWhile P (drop i s))"
    by (simp add: set_take_subset)
  then show ?thesis by (auto simp: slice_def list_all_iff dest: set_takeWhileD)
qed

lemma run_ge:
  assumes "list_all P w"
  shows "length w \<le> run P (pre @ w @ post) (length pre)"
proof -
  have "takeWhile P (w @ post) = w @ takeWhile P post"
    using assms by (intro takeWhile_append2) (simp add: list_all_iff)
  then show ?thesis by (simp add: run_def)
qed

lemma rmatch_sound:
  "x \<in> set (rmatch ic s r st) \<Longrightarrow> fst st \<le> length s \<Longrightarrow>
     sem ic r (take (fst st) s) (slice s (fst st) (fst x)) (drop (fst x) s)"
proof (induction r arbitrary: x st)
  case (Lit p)
  then show ?case by (auto simp: lit_at_def slice_def split: if_splits)
next
  case (Cls P)
  then have "fst st < length s" "P (s ! fst st)" "fst x = Suc (fst st)"
    by (auto split: if_splits)
  moreover from this have "slice s (fst st) (Suc (fst st)) = [s ! fst st]"
    by (simp add: slice_def take_Suc_conv_app_nth)
  ultimately show ?case by simp
next
  case (Seq a b)
  from Seq.prems(1) obtain m where m: "m \<in> set (rmatch ic s a st)" "x \<in> set (rmatch ic s b m)"
    by auto
  from rmatch_bounds [OF m(1) Seq.prems(2)] have 1: "fst st \<le> fst m" "fst m \<le> length s" by simp_all
  from rmatch_bounds [OF m(2) 1(2)] have 2: "fst m \<le> fst x" "fst x \<le> length s" by simp_all
  have "sem ic a (take (fst st) s) (slice s (fst st) (fst m)) (drop (fst m) s)"
    by (rule Seq.IH(1) [OF m(1) Seq.prems(2)])
  then have "sem ic a (take (fst st) s) (slice s (fst st) (fst m)) (slice s (fst m) (fst x) @ drop (fst x) s)"
    using 2 by (simp add: slice_drop)
  moreover have "sem ic b (take (fst m) s) (slice s (fst m) (fst x)) (drop (fst x) s)"
    by (rule Seq.IH(2) [OF m(2) 1(2)])
  then have "sem ic b (take (fst st) s @ slice s (fst st) (fst m)) (slice s (fst m) (fst x)) (drop (fst x) s)"
    using 1 by (simp add: take_slice)
  moreover have "slice s (fst st) (fst x) = slice s (fst st) (fst m) @ slice s (fst m) (fst x)"
    using 1 2 by (intro slice_append)
  ultimately show ?case by auto
next
  case (Alt a b)
  from Alt.prems(1) consider "x \<in> set (rmatch ic s a st)" | "x \<in> set (rmatch ic s b st)"
    by auto
  then show ?case using Alt.IH Alt.prems(2) by cases auto
next
  case (Opt a)
  from Opt.prems(1) consider "x \<in> set (rmatch ic s a st)" | "x = st" by auto
  then show ?case using Opt.IH Opt.prems(2) by cases (auto simp: slice_same)
next
  case (Star P)
  then obtain k where "k \<le> run P s (fst st)" "fst x = fst st + k" by auto
  then show ?case using slice_run by simp
next
  case (Plus P)
  then obtain k where k: "1 \<le> k" "k \<le> run P s (fst st)" "fst x = fst st + k" by auto
  moreover have "fst st + run P s (fst st) \<le> length s" using run_le [of "fst st" P s] Plus.prems(2) by auto
  ultimately have "length (slice s (fst st) (fst x)) = k" by (simp add: length_slice)
  then have "slice s (fst st) (fst x) \<noteq> []" using k(1) by auto
  then show ?case using k slice_run by simp
next
  case (Rep n P)
  then have k: "n \<le> run P s (fst st)" "fst x = fst st + n" by (auto split: if_splits)
  moreover have "fst st + run P s (fst st) \<le> length s" using run_le [of "fst st" P s] Rep.prems(2) by auto
  ultimately have "length (slice s (fst st) (fst x)) = n" by (simp add: length_slice)
  then show ?case using k slice_run by simp
next
  case WordB
  then have "at_boundary s (fst st)" "x = st" by (auto split: if_splits)
  then show ?case using WordB.prems(2) by (simp add: slice_same at_boundary_eq)
next
  case (Group g a)
  from Group.prems(1) obtain e where "e \<in> set (rmatch ic s a st)" "fst x = fst e" by auto
  then show ?case using Group.IH Group.prems(2) by simp
qed

lemma rmatch_complete:
  "sem ic r pre w post \<Longrightarrow>
     \<exists>caps. (length pre + length w, caps) \<in> set (rmatch ic (pre @ w @ post) r (length pre, c))"
proof (induction r arbitrary: pre w post c)
  case (Lit p)
  then have "list_all2 (chr_eq ic) p w" by simp
  moreover from this have "length p = length w" by (rule list_all2_lengthD)
  ultimately have "lit_at ic (pre @ w @ post) (length pre) p" by (simp add: lit_at_def)
  with \<open>length p = length w\<close> show ?case by simp
next
  case (Cls P)
  then obtain ch where "w = [ch]" "P ch" by auto
  then show ?case by (simp add: nth_append)
next
  case (Seq a b)
  then obtain u v where w: "w = u @ v" and a: "sem ic a pre u (v @ post)"
    and b: "sem ic b (pre @ u) v post" by auto
  from Seq.IH(1) [OF a, of c] obtain c1 where
    1: "(length pre + length u, c1) \<in> set (rmatch ic (pre @ u @ v @ post) a (length pre, c))" by blast
  from Seq.IH(2) [OF b, of c1] obtain c2 where
    2: "(length (pre @ u) + length v, c2) \<in> set (rmatch ic ((pre @ u) @ v @ post) b (length (pre @ u), c1))"
    by blast
  from 1 2 have "(length pre + length w, c2) \<in> set (rmatch ic (pre @ w @ post) (Seq a b) (length pre, c))"
    unfolding w by (auto simp: add.assoc intro!: bexI [of _ "(length pre + length u, c1)"])
  then show ?case by blast
next
  case (Alt a b)
  then show ?case by (metis UnCI rmatch.simps(4) sem.simps(4) set_append)
next
  case (Opt a)
  from Opt.prems consider "sem ic a pre w post" | "w = []" by auto
  then show ?case
  proof cases
    case 1
    from Opt.IH [OF 1, of c] show ?thesis by auto
  next
    case 2
    then show ?thesis by auto
  qed
next
  case (Star P)
  then have "length w \<le> run P (pre @ w @ post) (length pre)" by (simp add: run_ge)
  then show ?case by (auto simp: image_iff intro!: exI [of _ c] bexI [of _ "length w"])
next
  case (Plus P)
  then have "length w \<le> run P (pre @ w @ post) (length pre)" "1 \<le> length w"
    by (simp_all add: run_ge Suc_le_eq)
  then show ?case by (auto simp: image_iff intro!: exI [of _ c] bexI [of _ "length w"])
next
  case (Rep n P)
  then have "n \<le> run P (pre @ w @ post) (length pre)" "length w = n"
    using run_ge [of P w pre post] by auto
  then show ?case by auto
next
  case WordB
  then have "w = []" "boundary pre post" by auto
  then have "at_boundary (pre @ w @ post) (length pre)"
    by (simp add: at_boundary_eq)
  with \<open>w = []\<close> show ?case by auto
next
  case (Group g a)
  then have "sem ic a pre w post" by simp
  from Group.IH [OF this, of c] obtain caps where
    "(length pre + length w, caps) \<in> set (rmatch ic (pre @ w @ post) a (length pre, c))" by blast
  then have "(length pre + length w, (g, length pre, length pre + length w) # caps)
      \<in> set (rmatch ic (pre @ w @ post) (Group g a) (length pre, c))"
    by (auto simp: image_iff intro!: bexI [of _ "(length pre + length w, caps)"])
  then show ?case by blast
qed

lemma split_at: "i \<le> j \<Longrightarrow> s = take i s @ slice s i j @ drop j s"
  by (simp add: slice_drop)

lemma re_search_leftmost:
  assumes "\<forall>j < i. rmatch ic s r (j, []) = []" and "s = pre @ w @ post" and "sem ic r pre w post"
  shows "i \<le> length pre"
proof (rule ccontr)
  assume "\<not> i \<le> length pre"
  then have "rmatch ic s r (length pre, []) = []" using assms(1) by simp
  moreover from rmatch_complete [OF assms(3), of "[]"] have
    "rmatch ic s r (length pre, []) \<noteq> []" unfolding assms(2) by auto
  ultimately show False by simp
qed

lemma re_search_Some_sem:
  assumes "re_search ic r s = Some (i, e)"
  shows "i \<le> fst e \<and> fst e \<le> length s
       \<and> sem ic r (take i s) (slice s i (fst e)) (drop (fst e) s)
       \<and> (\<forall>pre w post. s = pre @ w @ post \<and> sem ic r pre w post \<longrightarrow> i \<le> length pre)"
proof -
  from re_search_Some [OF assms] have i: "i \<le> length s"
    and e: "e \<in> set (rmatch ic s r (i, []))"
    and l: "\<forall>j < i. rmatch ic s r (j, []) = []" by simp_all
  from rmatch_bounds [OF e] i have 1: "i \<le> fst e \<and> fst e \<le> length s" by simp
  from rmatch_sound [OF e] i have 2: "sem ic r (take i s) (slice s i (fst e)) (drop (fst e) s)" by simp
  from l have 3: "\<forall>pre w post. s = pre @ w @ post \<and> sem ic r pre w post \<longrightarrow> i \<le> length pre"
    using re_search_leftmost by blast
  from 1 2 3 show ?thesis by blast
qed

lemma re_search_None_sem:
  "re_search ic r s = None \<longleftrightarrow> (\<forall>pre w post. s = pre @ w @ post \<longrightarrow> \<not> sem ic r pre w post)"
proof
  assume n: "re_search ic r s = None"
  show "\<forall>pre w post. s = pre @ w @ post \<longrightarrow> \<not> sem ic r pre w post"
  proof (intro allI impI notI)
    fix pre w post
    assume s: "s = pre @ w @ post" and m: "sem ic r pre w post"
    from rmatch_complete [OF m, of "[]"] have "rmatch ic s r (length pre, []) \<noteq> []"
      unfolding s by auto
    moreover have "length pre \<le> length s" unfolding s by simp
    ultimately show False using n by (simp add: re_search_None)
  qed
next
  assume a: "\<forall>pre w post. s = pre @ w @ post \<longrightarrow> \<not> sem ic r pre w post"
  show "re_search ic r s = None"
  proof (cases "re_search ic r s")
    case None
    then show ?thesis .
  next
    case (Some m)
    obtain i e where m: "m = (i, e)" by (cases m)
    from re_search_Some_sem [OF Some [unfolded m]] have
      "i \<le> fst e" "sem ic r (take i s) (slice s i (fst e)) (drop (fst e) s)" by simp_all
    with a split_at [of i "fst e" s] show ?thesis by blast
  qed
qed

end
